theory Spec2Isabelle
  imports Complex_Main "HOL-Library.Sublist"
begin

section \<open>JavaScript values used by the sniffer\<close>

text \<open>
  The sniffer (\<^verbatim>\<open>src/unnamed/part_001\<close>) is plain JavaScript. Strings are modelled as
  \<^typ>\<open>string\<close>: one \<^typ>\<open>char\<close> per UTF-16 code unit, for samples whose code units are
  below 256. An option that the caller may leave out is a \<open>jsval\<close>: \<open>Undefined\<close> when the
  property is absent, \<open>Null\<close> for \<^verbatim>\<open>null\<close>, \<open>Value v\<close> otherwise.
\<close>

datatype 'a jsval = Undefined | Null | Value 'a

abbreviation LF :: char where "LF \<equiv> CHR 0x0A"
abbreviation CR :: char where "CR \<equiv> CHR 0x0D"
abbreviation TAB :: char where "TAB \<equiv> CHR 0x09"

text \<open>
  The white space of \<^verbatim>\<open>\s\<close> and of the string-to-number conversion, among the code units
  below 256: TAB, LF, VT, FF, CR, SP and NBSP.
\<close>

definition whiteSpaceChars :: string where
  "whiteSpaceChars = [CHR 0x09, CHR 0x0A, CHR 0x0B, CHR 0x0C, CHR 0x0D, CHR 0x20, CHR 0xA0]"

definition isWhiteSpace :: "char \<Rightarrow> bool" where
  "isWhiteSpace c = (c \<in> set whiteSpaceChars)"

subsection \<open>Numbers: IEEE-754 binary64 with round-to-nearest, ties-to-even\<close>

text \<open>
  A JavaScript number is \<open>NaN\<close>, an infinity, or a finite double, kept as the rational it
  denotes. Every arithmetic operation computes the exact rational result and rounds it with
  \<open>toDouble\<close>. The sign of zero is not kept: the sniffer only divides by a zero that is a
  length or a sum of lengths (a positive zero), and \<^verbatim>\<open>-0 !== 0\<close> is false as for \<^verbatim>\<open>0\<close>.
\<close>

datatype number = NaN | PosInf | NegInf | Num rat

definition pow2 :: "int \<Rightarrow> rat" where
  "pow2 e = (if 0 \<le> e then 2 ^ nat e else 1 / 2 ^ nat (- e))"

text \<open>The number of binary digits of a positive integer.\<close>

function bitLength :: "int \<Rightarrow> nat" where
  "bitLength n = (if n \<le> 0 then 0 else Suc (bitLength (n div 2)))"
  by pat_completeness auto
termination
  by (relation "measure nat") auto

declare bitLength.simps [simp del]

text \<open>For \<open>q > 0\<close>, \<open>binade q\<close> is the exponent \<open>e\<close> with \<open>2^e \<le> q < 2^(e+1)\<close>.\<close>

definition binade :: "rat \<Rightarrow> int" where
  "binade q = (case quotient_of q of (a, b) \<Rightarrow>
     (let e0 = int (bitLength a) - int (bitLength b) in
      if pow2 e0 \<le> q then e0 else e0 - 1))"

definition roundTiesToEven :: "rat \<Rightarrow> int" where
  "roundTiesToEven y = (let f = \<lfloor>y\<rfloor>; r = y - of_int f in
     if r < 1 / 2 then f else if 1 / 2 < r then f + 1 else if even f then f else f + 1)"

text \<open>
  The double nearest to \<open>q\<close> when the exponent range is unbounded above: 53 significant
  bits, and a spacing of \<open>2^-1074\<close> below \<open>2^-1022\<close> (the subnormal range).
\<close>

definition nearestDouble :: "rat \<Rightarrow> rat" where
  "nearestDouble q = (if q = 0 then 0 else
     (let u = pow2 (max (binade \<bar>q\<bar>) (- 1022) - 52) in of_int (roundTiesToEven (q / u)) * u))"

definition toDouble :: "rat \<Rightarrow> number" where
  "toDouble q = (let r = nearestDouble q in
     if 2 ^ 1024 \<le> r then PosInf else if r \<le> - (2 ^ 1024) then NegInf else Num r)"

fun fneg :: "number \<Rightarrow> number" where
  "fneg NaN = NaN"
| "fneg PosInf = NegInf"
| "fneg NegInf = PosInf"
| "fneg (Num a) = Num (- a)"

fun fabs :: "number \<Rightarrow> number" where
  "fabs NaN = NaN"
| "fabs PosInf = PosInf"
| "fabs NegInf = PosInf"
| "fabs (Num a) = Num \<bar>a\<bar>"

fun fadd :: "number \<Rightarrow> number \<Rightarrow> number" where
  "fadd (Num a) (Num b) = toDouble (a + b)"
| "fadd NaN _ = NaN"
| "fadd _ NaN = NaN"
| "fadd PosInf NegInf = NaN"
| "fadd NegInf PosInf = NaN"
| "fadd PosInf _ = PosInf"
| "fadd _ PosInf = PosInf"
| "fadd NegInf _ = NegInf"
| "fadd _ NegInf = NegInf"

definition fsub :: "number \<Rightarrow> number \<Rightarrow> number" where
  "fsub a b = fadd a (fneg b)"

fun fmul :: "number \<Rightarrow> number \<Rightarrow> number" where
  "fmul (Num a) (Num b) = toDouble (a * b)"
| "fmul NaN _ = NaN"
| "fmul _ NaN = NaN"
| "fmul PosInf (Num b) = (if b = 0 then NaN else if 0 < b then PosInf else NegInf)"
| "fmul NegInf (Num b) = (if b = 0 then NaN else if 0 < b then NegInf else PosInf)"
| "fmul (Num a) PosInf = (if a = 0 then NaN else if 0 < a then PosInf else NegInf)"
| "fmul (Num a) NegInf = (if a = 0 then NaN else if 0 < a then NegInf else PosInf)"
| "fmul PosInf PosInf = PosInf"
| "fmul NegInf NegInf = PosInf"
| "fmul PosInf NegInf = NegInf"
| "fmul NegInf PosInf = NegInf"

fun fdiv :: "number \<Rightarrow> number \<Rightarrow> number" where
  "fdiv (Num a) (Num b) =
     (if b = 0 then (if a = 0 then NaN else if 0 < a then PosInf else NegInf)
      else toDouble (a / b))"
| "fdiv NaN _ = NaN"
| "fdiv _ NaN = NaN"
| "fdiv (Num a) PosInf = Num 0"
| "fdiv (Num a) NegInf = Num 0"
| "fdiv PosInf (Num b) = (if 0 \<le> b then PosInf else NegInf)"
| "fdiv NegInf (Num b) = (if 0 \<le> b then NegInf else PosInf)"
| "fdiv PosInf PosInf = NaN"
| "fdiv PosInf NegInf = NaN"
| "fdiv NegInf PosInf = NaN"
| "fdiv NegInf NegInf = NaN"

text \<open>\<^verbatim>\<open>a < b\<close>; every comparison with \<open>NaN\<close> is false.\<close>

fun flt :: "number \<Rightarrow> number \<Rightarrow> bool" where
  "flt (Num a) (Num b) = (a < b)"
| "flt NaN _ = False"
| "flt _ NaN = False"
| "flt PosInf _ = False"
| "flt _ PosInf = True"
| "flt NegInf NegInf = False"
| "flt NegInf _ = True"
| "flt _ NegInf = False"

definition fgt :: "number \<Rightarrow> number \<Rightarrow> bool" where
  "fgt a b = flt b a"

definition fge :: "number \<Rightarrow> number \<Rightarrow> bool" where
  "fge a b = (a \<noteq> NaN \<and> b \<noteq> NaN \<and> \<not> flt a b)"

text \<open>A count or a length as a number: exact below \<open>2^53\<close>, which bounds a string's length.\<close>

definition ofNat :: "nat \<Rightarrow> number" where
  "ofNat n = Num (of_nat n)"

definition isFinite :: "number \<Rightarrow> bool" where
  "isFinite x = (case x of Num _ \<Rightarrow> True | _ \<Rightarrow> False)"

text \<open>\<^verbatim>\<open>x % 1\<close>: the remainder keeps the dividend's sign and is exact.\<close>

definition fmod1 :: "number \<Rightarrow> number" where
  "fmod1 x = (case x of Num a \<Rightarrow> Num (a - of_int (if 0 \<le> a then \<lfloor>a\<rfloor> else \<lceil>a\<rceil>)) | _ \<Rightarrow> NaN)"

subsection \<open>String to number\<close>

text \<open>
  \<^verbatim>\<open>isFinite(s)\<close> and \<^verbatim>\<open>s % 1\<close> first convert the string \<open>s\<close> with the grammar
  \<^verbatim>\<open>StringNumericLiteral\<close> of ECMAScript (2015 and later): white space is trimmed, the empty
  string is 0, a literal is a signed decimal with optional fraction and exponent,
  \<^verbatim>\<open>Infinity\<close>, or an unsigned \<^verbatim>\<open>0x\<close>, \<^verbatim>\<open>0o\<close>, \<^verbatim>\<open>0b\<close> integer; anything else is \<open>NaN\<close>.
  The literal's value is rounded to the nearest double.
\<close>

definition trim :: "string \<Rightarrow> string" where
  "trim s = rev (dropWhile isWhiteSpace (rev (dropWhile isWhiteSpace s)))"

definition digitValue :: "char \<Rightarrow> nat option" where
  "digitValue c = (let n = (of_char c :: nat) in
     if 48 \<le> n \<and> n \<le> 57 then Some (n - 48)
     else if 97 \<le> n \<and> n \<le> 102 then Some (n - 87)
     else if 65 \<le> n \<and> n \<le> 70 then Some (n - 55)
     else None)"

definition isDigitOf :: "nat \<Rightarrow> char \<Rightarrow> bool" where
  "isDigitOf base c = (case digitValue c of None \<Rightarrow> False | Some d \<Rightarrow> d < base)"

definition digitsValue :: "nat \<Rightarrow> string \<Rightarrow> int" where
  "digitsValue base ds =
     foldl (\<lambda>acc c. acc * int base + (case digitValue c of None \<Rightarrow> 0 | Some d \<Rightarrow> int d)) 0 ds"

definition integerLiteral :: "nat \<Rightarrow> string \<Rightarrow> int option" where
  "integerLiteral base ds =
     (if ds \<noteq> [] \<and> list_all (isDigitOf base) ds then Some (digitsValue base ds) else None)"

definition exponentPart :: "string \<Rightarrow> int option" where
  "exponentPart r = (case r of
       [] \<Rightarrow> Some 0
     | c # r1 \<Rightarrow>
         if c = CHR ''e'' \<or> c = CHR ''E'' then
           (case r1 of
              [] \<Rightarrow> None
            | s # r2 \<Rightarrow>
                if s = CHR ''+'' then integerLiteral 10 r2
                else if s = CHR ''-'' then map_option uminus (integerLiteral 10 r2)
                else integerLiteral 10 r1)
         else None)"

definition pow10 :: "int \<Rightarrow> rat" where
  "pow10 e = (if 0 \<le> e then 10 ^ nat e else 1 / 10 ^ nat (- e))"

definition strUnsignedDecimalLiteral :: "string \<Rightarrow> number" where
  "strUnsignedDecimalLiteral t =
     (if t = ''Infinity'' then PosInf
      else
        (let ip = takeWhile (isDigitOf 10) t;
             r1 = dropWhile (isDigitOf 10) t;
             fp = (case r1 of [] \<Rightarrow> [] | c # r \<Rightarrow>
                     if c = CHR ''.'' then takeWhile (isDigitOf 10) r else []);
             r2 = (case r1 of [] \<Rightarrow> [] | c # r \<Rightarrow>
                     if c = CHR ''.'' then dropWhile (isDigitOf 10) r else r1)
         in if ip = [] \<and> fp = [] then NaN
            else (case exponentPart r2 of
                    None \<Rightarrow> NaN
                  | Some e \<Rightarrow>
                      toDouble (of_int (digitsValue 10 (ip @ fp)) * pow10 (e - int (length fp))))))"

definition nonDecimalLiteral :: "string \<Rightarrow> int option" where
  "nonDecimalLiteral t = (case t of
       z # x # ds \<Rightarrow>
         if z \<noteq> CHR ''0'' then None
         else if x = CHR ''x'' \<or> x = CHR ''X'' then integerLiteral 16 ds
         else if x = CHR ''o'' \<or> x = CHR ''O'' then integerLiteral 8 ds
         else if x = CHR ''b'' \<or> x = CHR ''B'' then integerLiteral 2 ds
         else None
     | _ \<Rightarrow> None)"

definition toNumber :: "string \<Rightarrow> number" where
  "toNumber s =
     (let t = trim s in
      case t of
        [] \<Rightarrow> Num 0
      | c # r \<Rightarrow>
          (case nonDecimalLiteral t of
             Some n \<Rightarrow> toDouble (of_int n)
           | None \<Rightarrow>
               if c = CHR ''+'' then strUnsignedDecimalLiteral r
               else if c = CHR ''-'' then fneg (strUnsignedDecimalLiteral r)
               else strUnsignedDecimalLiteral t))"

section \<open>Column types\<close>

text \<open>The type tags \<^verbatim>\<open>"integer"\<close>, \<^verbatim>\<open>"float"\<close> and \<^verbatim>\<open>"string"\<close>.\<close>

datatype coltype = IntegerT | FloatT | StringT

text \<open>\<^verbatim>\<open>getAccumulatedType(curValue, curType)\<close>, lines 470 to 482.\<close>

definition getAccumulatedType :: "string \<Rightarrow> coltype \<Rightarrow> coltype" where
  "getAccumulatedType curValue curType =
     (if curType = StringT then StringT
      else if \<not> isFinite (toNumber curValue) then StringT
      else if curType = FloatT \<or> fmod1 (toNumber curValue) \<noteq> Num 0 then FloatT
      else IntegerT)"

text \<open>The lattice \<open>integer < float < string\<close> of the specification.\<close>

fun rank :: "coltype \<Rightarrow> nat" where
  "rank IntegerT = 0"
| "rank FloatT = 1"
| "rank StringT = 2"

definition type_le :: "coltype \<Rightarrow> coltype \<Rightarrow> bool" where
  "type_le a b = (rank a \<le> rank b)"

section \<open>Lines of the sample\<close>

text \<open>\<^verbatim>\<open>s.indexOf(pat)\<close>: the first position at which \<open>pat\<close> occurs in \<open>s\<close>, if any.\<close>

fun indexOf :: "string \<Rightarrow> string \<Rightarrow> nat option" where
  "indexOf pat [] = (if pat = [] then Some 0 else None)"
| "indexOf pat (c # cs) =
     (if prefix pat (c # cs) then Some 0 else map_option Suc (indexOf pat cs))"

lemma indexOf_bound: "indexOf pat s = Some k \<Longrightarrow> k + length pat \<le> length s"
proof (induction s arbitrary: k)
  case Nil
  then show ?case by (simp split: if_splits)
next
  case (Cons c cs)
  show ?case
  proof (cases "prefix pat (c # cs)")
    case True
    then show ?thesis using Cons.prems prefix_length_le [of pat "c # cs"] by simp
  next
    case False
    then obtain j where "indexOf pat cs = Some j" "k = Suc j"
      using Cons.prems by auto
    then show ?thesis using Cons.IH [of j] by simp
  qed
qed

text \<open>
  The loops \<^verbatim>\<open>while((newlinePos = sample.indexOf(newlineStr, curPos)) > -1)\<close> of lines 46
  and 297 walk from one occurrence of \<open>newlineStr\<close> to the next: \<open>terminatedLines\<close> is the
  list of the lines they visit, each one ended by \<open>newlineStr\<close>. With an empty
  \<open>newlineStr\<close> the source would never leave the loop; \<open>sniff\<close> rules that out at line
  630, and the four candidates of \<open>getNewlineStr\<close> are not empty.
\<close>

function terminatedLines :: "string \<Rightarrow> string \<Rightarrow> string list" where
  "terminatedLines newlineStr s =
     (if newlineStr = [] then []
      else (case indexOf newlineStr s of
              None \<Rightarrow> []
            | Some k \<Rightarrow> take k s # terminatedLines newlineStr (drop (k + length newlineStr) s)))"
  by pat_completeness auto
termination
proof (relation "measure (\<lambda>(newlineStr, s). length s)")
  show "wf (measure (\<lambda>(newlineStr, s). length s))" by simp
next
  fix newlineStr s :: string and k :: nat
  assume "newlineStr \<noteq> []" "indexOf newlineStr s = Some k"
  then have "k + length newlineStr \<le> length s" "0 < length newlineStr"
    using indexOf_bound by auto
  then have "length s - (k + length newlineStr) < length s"
    by linarith
  then show "((newlineStr, drop (k + length newlineStr) s), (newlineStr, s))
      \<in> measure (\<lambda>(newlineStr, s). length s)"
    by simp
qed

declare terminatedLines.simps [simp del]

text \<open>
  \<^verbatim>\<open>s.split(sep)\<close> for a string separator: the pieces between the occurrences of \<open>sep\<close>,
  found from left to right; the empty separator splits into code units.
\<close>

function split :: "string \<Rightarrow> string \<Rightarrow> string list" where
  "split sep s =
     (if sep = [] then map (\<lambda>c. [c]) s
      else (case indexOf sep s of
              None \<Rightarrow> [s]
            | Some k \<Rightarrow> take k s # split sep (drop (k + length sep) s)))"
  by pat_completeness auto
termination
proof (relation "measure (\<lambda>(sep, s). length s)")
  show "wf (measure (\<lambda>(sep, s). length s))" by simp
next
  fix sep s :: string and k :: nat
  assume "sep \<noteq> []" "indexOf sep s = Some k"
  then have "k + length sep \<le> length s" "0 < length sep"
    using indexOf_bound by auto
  then have "length s - (k + length sep) < length s"
    by linarith
  then show "((sep, drop (k + length sep) s), (sep, s)) \<in> measure (\<lambda>(sep, s). length s)"
    by simp
qed

declare split.simps [simp del]

section \<open>Newline detection\<close>

text \<open>\<^verbatim>\<open>getNewlineStr(sample)\<close>, lines 23 to 130.\<close>

definition candidates :: "string list" where
  "candidates = [[CR, LF], [LF, CR], [LF], [CR]]"

definition lineLengths :: "string \<Rightarrow> string \<Rightarrow> nat list" where
  "lineLengths sample newlineStr = map length (terminatedLines newlineStr sample)"

definition initialNrLines :: "string \<Rightarrow> string \<Rightarrow> nat" where
  "initialNrLines sample newlineStr = 1 + length (lineLengths sample newlineStr)"

text \<open>Lines 58 to 67: a one-character candidate with as many lines as a two-character one is set back to 1.\<close>

definition eliminateSubstrings :: "(string \<Rightarrow> nat) \<Rightarrow> string \<Rightarrow> (string \<Rightarrow> nat)" where
  "eliminateSubstrings nrLines newlineStr =
     (let nr = nrLines newlineStr in
      if 1 < nr
      then foldl (\<lambda>m one. if m one = nr then m(one := 1) else m) nrLines [[LF], [CR]]
      else nrLines)"

definition nrLinesOf :: "string \<Rightarrow> string \<Rightarrow> nat" where
  "nrLinesOf sample = foldl eliminateSubstrings (initialNrLines sample) [[CR, LF], [LF, CR]]"

definition remainingCandidates :: "string \<Rightarrow> string list" where
  "remainingCandidates sample = filter (\<lambda>newlineStr. 1 < nrLinesOf sample newlineStr) candidates"

text \<open>Lines 115 to 122: the mean absolute deviation of the line lengths, over their number and their mean.\<close>

definition lineScore :: "nat list \<Rightarrow> number" where
  "lineScore l =
     (let sum = foldl (\<lambda>sum d. fadd sum (ofNat d)) (Num 0) l;
          avg = fdiv sum (ofNat (length l));
          absSum = foldl (\<lambda>absSum d. fadd absSum (fabs (fsub (ofNat d) avg))) (Num 0) l
      in fdiv (fdiv absSum (ofNat (length l))) avg)"

definition getNewlineStr :: "string \<Rightarrow> string option" where
  "getNewlineStr sample =
     (let nrLines = nrLinesOf sample;
          remaining = remainingCandidates sample
      in case remaining of
           [] \<Rightarrow> None
         | [only] \<Rightarrow> Some only
         | _ \<Rightarrow>
           (let threshold = 5;
                finalRemainers = filter (\<lambda>newlineStr. threshold < nrLines newlineStr) remaining;
                maxNrLines = foldl (\<lambda>m newlineStr. max m (nrLines newlineStr)) 0 remaining
            in case finalRemainers of
                 [] \<Rightarrow> find (\<lambda>newlineStr. nrLines newlineStr = maxNrLines) remaining
               | [only] \<Rightarrow> Some only
               | _ \<Rightarrow>
                 fst (foldl (\<lambda>(winner, winnerScore) newlineStr.
                               (let score = lineScore (lineLengths sample newlineStr)
                                in if flt score winnerScore then (Some newlineStr, score)
                                   else (winner, winnerScore)))
                        (None, PosInf) finalRemainers)))"

section \<open>Quote and delimiter from structural patterns\<close>

text \<open>
  \<^verbatim>\<open>guessQuoteAndDelimiter(sample, newlineStr, delimiters)\<close>, lines 134 to 272. The four
  regular expressions are matched as a backtracking engine matches them; they carry the flag
  \<^verbatim>\<open>g\<close> only, so \<^verbatim>\<open>^\<close> holds at the start of the sample and \<^verbatim>\<open>$\<close> at its end. The
  classes \<^verbatim>\<open>[^nl"']\<close> and \<^verbatim>\<open>[^nl]\<close> are read for a \<open>newlineStr\<close> whose characters stand
  for themselves inside a character class, as those of the four candidates do. For a
  \<open>newlineStr\<close> of the options that holds a backslash, \<^verbatim>\<open>]\<close>, \<^verbatim>\<open>^\<close> or \<^verbatim>\<open>-\<close> the source
  builds another class, or no expression at all, and \<open>isDelimiterChar\<close> and
  \<open>lazyContent\<close> do not follow it there.
  \<open>delimiters\<close> is the array of one-character strings given to the constructor, or \<open>None\<close>
  when it was left out.
\<close>

record match =
  delim :: "char option"
  quote :: "char option"

definition isQuoteChar :: "char \<Rightarrow> bool" where
  "isQuoteChar c = (c = CHR 0x22 \<or> c = CHR 0x27)"

definition isDelimiterChar :: "string \<Rightarrow> char \<Rightarrow> bool" where
  "isDelimiterChar newlineStr c = (c \<notin> set newlineStr \<and> \<not> isQuoteChar c)"

text \<open>
  \<^verbatim>\<open>\s*?X\<close> for a one-character class \<open>X\<close>: the lazy star first tries \<open>X\<close> at the current
  character and only then takes that character as white space. The result is the character
  matched by \<open>X\<close> and the text after it.
\<close>

fun lazySpaceThen :: "(char \<Rightarrow> bool) \<Rightarrow> string \<Rightarrow> (char \<times> string) option" where
  "lazySpaceThen X [] = None"
| "lazySpaceThen X (x # xs) =
     (if X x then Some (x, xs)
      else if isWhiteSpace x then lazySpaceThen X xs
      else None)"

text \<open>\<^verbatim>\<open>\s*?$\<close>: only white space is left before the end of the sample.\<close>

definition lazySpaceThenEnd :: "string \<Rightarrow> (unit \<times> string) option" where
  "lazySpaceThenEnd s = (if list_all isWhiteSpace s then Some ((), []) else None)"

text \<open>
  \<^verbatim>\<open>[^nl]*?\<close> followed by the closing quote \<open>q\<close> and by the rest of the pattern, \<open>after\<close>:
  the lazy star first tries to close the quote at the current character and to match the
  rest; when that fails it takes the character as content, unless it belongs to
  \<open>newlineStr\<close>.
\<close>

fun lazyContent :: "string \<Rightarrow> char \<Rightarrow> (string \<Rightarrow> ('a \<times> string) option) \<Rightarrow> string \<Rightarrow> ('a \<times> string) option" where
  "lazyContent newlineStr q after [] = None"
| "lazyContent newlineStr q after (x # xs) =
     (case (if x = q then after xs else None) of
        Some r \<Rightarrow> Some r
      | None \<Rightarrow> if x \<in> set newlineStr then None else lazyContent newlineStr q after xs)"

text \<open>Lines 152 to 164: delimiter, quoted text, the same delimiter again.\<close>

definition matchBothSides :: "string \<Rightarrow> string \<Rightarrow> (match \<times> string) option" where
  "matchBothSides newlineStr s =
     (case s of
        [] \<Rightarrow> None
      | d # r \<Rightarrow>
          if \<not> isDelimiterChar newlineStr d then None
          else (case lazySpaceThen isQuoteChar r of
                  None \<Rightarrow> None
                | Some (q, r1) \<Rightarrow>
                    (case lazyContent newlineStr q (lazySpaceThen (\<lambda>y. y = d)) r1 of
                       None \<Rightarrow> None
                     | Some (_, rest) \<Rightarrow> Some (\<lparr>delim = Some d, quote = Some q\<rparr>, rest))))"

text \<open>Lines 167 to 179: quoted text at the start of the sample, then a delimiter.\<close>

definition matchRightSide :: "string \<Rightarrow> string \<Rightarrow> (match \<times> string) option" where
  "matchRightSide newlineStr s =
     (case lazySpaceThen isQuoteChar s of
        None \<Rightarrow> None
      | Some (q, r1) \<Rightarrow>
          (case lazyContent newlineStr q (lazySpaceThen (isDelimiterChar newlineStr)) r1 of
             None \<Rightarrow> None
           | Some (d, rest) \<Rightarrow> Some (\<lparr>delim = Some d, quote = Some q\<rparr>, rest)))"

text \<open>Lines 182 to 194: a delimiter, then quoted text up to the end of the sample.\<close>

definition matchLeftSide :: "string \<Rightarrow> string \<Rightarrow> (match \<times> string) option" where
  "matchLeftSide newlineStr s =
     (case s of
        [] \<Rightarrow> None
      | d # r \<Rightarrow>
          if \<not> isDelimiterChar newlineStr d then None
          else (case lazySpaceThen isQuoteChar r of
                  None \<Rightarrow> None
                | Some (q, r1) \<Rightarrow>
                    (case lazyContent newlineStr q lazySpaceThenEnd r1 of
                       None \<Rightarrow> None
                     | Some (_, rest) \<Rightarrow> Some (\<lparr>delim = Some d, quote = Some q\<rparr>, rest))))"

text \<open>Lines 197 to 208: quoted text from the start to the end of the sample; no delimiter is captured.\<close>

definition matchJustQuotes :: "string \<Rightarrow> string \<Rightarrow> (match \<times> string) option" where
  "matchJustQuotes newlineStr s =
     (case lazySpaceThen isQuoteChar s of
        None \<Rightarrow> None
      | Some (q, r1) \<Rightarrow>
          (case lazyContent newlineStr q lazySpaceThenEnd r1 of
             None \<Rightarrow> None
           | Some (_, rest) \<Rightarrow> Some (\<lparr>delim = None, quote = Some q\<rparr>, rest)))"

text \<open>One \<^verbatim>\<open>exec\<close> of an expression without \<^verbatim>\<open>^\<close>: the leftmost position that matches, from the current one on.\<close>

fun findMatch :: "(string \<Rightarrow> ('a \<times> string) option) \<Rightarrow> string \<Rightarrow> ('a \<times> string) option" where
  "findMatch m [] = m []"
| "findMatch m (c # cs) = (case m (c # cs) of Some r \<Rightarrow> Some r | None \<Rightarrow> findMatch m cs)"

lemma lazySpaceThen_shorter: "lazySpaceThen X s = Some (c, r) \<Longrightarrow> length r < length s"
  by (induction s) (auto split: if_splits)

lemma lazyContent_shorter:
  assumes "\<And>r y rest. after r = Some (y, rest) \<Longrightarrow> length rest \<le> length r"
  shows "lazyContent newlineStr q after s = Some (y, rest) \<Longrightarrow> length rest < length s"
proof (induction s)
  case Nil
  then show ?case by simp
next
  case (Cons x xs)
  show ?case
  proof (cases "if x = q then after xs else None")
    case None
    then have "lazyContent newlineStr q after xs = Some (y, rest)"
      using Cons.prems by (simp split: if_splits)
    then show ?thesis using Cons.IH by simp
  next
    case (Some r)
    then have "after xs = Some (y, rest)"
      using Cons.prems by (simp split: if_splits)
    then show ?thesis using assms [of xs y rest] by simp
  qed
qed

lemma matchBothSides_shorter:
  assumes "matchBothSides newlineStr s = Some (x, rest)"
  shows "length rest < length s"
proof (cases s)
  case Nil
  then show ?thesis using assms by (simp add: matchBothSides_def)
next
  case (Cons d r)
  from assms Cons obtain q r1 y where
    a: "lazySpaceThen isQuoteChar r = Some (q, r1)" and
    b: "lazyContent newlineStr q (lazySpaceThen (\<lambda>y. y = d)) r1 = Some (y, rest)"
    by (auto simp: matchBothSides_def split: if_splits option.splits)
  have "length rest < length r1"
    using b by (rule lazyContent_shorter [rotated]) (auto dest: lazySpaceThen_shorter)
  moreover have "length r1 < length r"
    using a by (rule lazySpaceThen_shorter)
  ultimately show ?thesis using Cons by simp
qed

lemma findMatch_shorter:
  assumes "\<And>t x rest. m t = Some (x, rest) \<Longrightarrow> length rest < length t"
  shows "findMatch m s = Some (x, rest) \<Longrightarrow> length rest < length s"
proof (induction s)
  case Nil
  then show ?case using assms [of "[]" x rest] by simp
next
  case (Cons c cs)
  show ?case
  proof (cases "m (c # cs)")
    case None
    then show ?thesis using Cons by simp
  next
    case (Some r)
    then show ?thesis using Cons.prems assms [of "c # cs" x rest] by simp
  qed
qed

text \<open>
  The loop \<^verbatim>\<open>while(matchesNew = d.expr.exec(sample))\<close> of line 214 for the first expression:
  every \<^verbatim>\<open>exec\<close> starts where the match before it ended.
\<close>

function execBothSides :: "string \<Rightarrow> string \<Rightarrow> match list" where
  "execBothSides newlineStr s =
     (case findMatch (matchBothSides newlineStr) s of
        None \<Rightarrow> []
      | Some (x, rest) \<Rightarrow> x # execBothSides newlineStr rest)"
  by pat_completeness auto
termination
proof (relation "measure (\<lambda>(newlineStr, s). length s)")
  show "wf (measure (\<lambda>(newlineStr, s). length s))" by simp
next
  fix newlineStr s rest :: string and x :: match and xr
  assume "findMatch (matchBothSides newlineStr) s = Some xr" "(x, rest) = xr"
  then have "findMatch (matchBothSides newlineStr) s = Some (x, rest)"
    by simp
  then have "length rest < length s"
    by (rule findMatch_shorter [rotated]) (rule matchBothSides_shorter)
  then show "((newlineStr, rest), (newlineStr, s)) \<in> measure (\<lambda>(newlineStr, s). length s)"
    by simp
qed

declare execBothSides.simps [simp del]

text \<open>
  Lines 212 to 222: the expressions are tried in order until one has matches. An expression
  that starts with \<^verbatim>\<open>^\<close> or ends with \<^verbatim>\<open>$\<close> matches at most once, since the \<^verbatim>\<open>exec\<close>
  after a match starts behind the start, or at the end, of the sample.
\<close>

definition onlyMatch :: "(match \<times> string) option \<Rightarrow> match list" where
  "onlyMatch r = (case r of None \<Rightarrow> [] | Some (x, _) \<Rightarrow> [x])"

definition allMatches :: "string \<Rightarrow> string \<Rightarrow> match list" where
  "allMatches sample newlineStr =
     (let m1 = execBothSides newlineStr sample in
      if m1 \<noteq> [] then m1
      else (let m2 = onlyMatch (matchRightSide newlineStr sample) in
            if m2 \<noteq> [] then m2
            else (let m3 = onlyMatch (findMatch (matchLeftSide newlineStr) sample) in
                  if m3 \<noteq> [] then m3
                  else onlyMatch (matchJustQuotes newlineStr sample))))"

text \<open>
  The counters of lines 227 to 239 are objects keyed by a character, kept here in insertion
  order. \<^verbatim>\<open>Object.keys\<close> lists the keys that are array indices (the digits) first, in
  ascending order, and then the other keys in the order of their insertion.
\<close>

definition increment :: "(char \<times> nat) list \<Rightarrow> char \<Rightarrow> (char \<times> nat) list" where
  "increment counters k =
     (case map_of counters k of
        None \<Rightarrow> counters @ [(k, 1)]
      | Some n \<Rightarrow> map (\<lambda>(k', n'). if k' = k then (k', n' + 1) else (k', n')) counters)"

definition objectKeys :: "(char \<times> nat) list \<Rightarrow> char list" where
  "objectKeys counters =
     filter (\<lambda>d. d \<in> set (map fst counters)) ''0123456789'' @
     filter (\<lambda>k. k \<notin> set ''0123456789'') (map fst counters)"

definition maxCount :: "(char \<times> nat) list \<Rightarrow> char option" where
  "maxCount counters =
     fst (foldl (\<lambda>(winner, maxCount) d.
                   (let n = (case map_of counters d of None \<Rightarrow> 0 | Some n \<Rightarrow> int n)
                    in if maxCount < n then (Some d, n) else (winner, maxCount)))
            (None, - 1) (objectKeys counters))"

definition allowed :: "char list option \<Rightarrow> char \<Rightarrow> bool" where
  "allowed delimiters d = (case delimiters of None \<Rightarrow> True | Some ds \<Rightarrow> d \<in> set ds)"

definition delimCounters :: "match list \<Rightarrow> char list option \<Rightarrow> (char \<times> nat) list" where
  "delimCounters matches delimiters =
     foldl (\<lambda>counters d.
              (case delim d of
                 None \<Rightarrow> counters
               | Some c \<Rightarrow> if allowed delimiters c then increment counters c else counters))
       [] matches"

definition quoteCounters :: "match list \<Rightarrow> (char \<times> nat) list" where
  "quoteCounters matches =
     foldl (\<lambda>counters d. (case quote d of None \<Rightarrow> counters | Some c \<Rightarrow> increment counters c))
       [] matches"

definition guessQuoteAndDelimiter :: "string \<Rightarrow> string \<Rightarrow> char list option \<Rightarrow> match" where
  "guessQuoteAndDelimiter sample newlineStr delimiters =
     (let matches = allMatches sample newlineStr in
      if matches = [] then \<lparr>delim = None, quote = None\<rparr>
      else
        (let delim = maxCount (delimCounters matches delimiters);
             quote = maxCount (quoteCounters matches)
         in \<lparr>delim = (if delim = Some LF then None else delim), quote = quote\<rparr>))"

section \<open>Delimiter from character frequencies\<close>

text \<open>
  \<^verbatim>\<open>guessDelimiter(sample, newlineStr, delimiters)\<close>, lines 274 to 401. The loop of lines
  373 to 382 lowers \<open>consistency\<close> from 1.0 in steps of 0.01, in double arithmetic; the
  rounding of the doubles is bounded first, to show that the loop ends.
\<close>

lemma pow2_powi: "pow2 e = 2 powi e"
  by (simp add: pow2_def power_int_def inverse_eq_divide power_one_over)

lemma pow2_pos: "0 < pow2 e"
  by (simp add: pow2_powi)

lemma bitLength_bounds: "0 < n \<Longrightarrow> 2 ^ (bitLength n - 1) \<le> n \<and> n < 2 ^ bitLength n"
proof (induction n rule: bitLength.induct)
  case (1 n)
  show ?case
  proof (cases "n div 2 \<le> 0")
    case True
    with "1.prems" have "n = 1" by presburger
    then show ?thesis by (simp add: bitLength.simps)
  next
    case False
    then have ih: "2 ^ (bitLength (n div 2) - 1) \<le> n div 2 \<and> n div 2 < 2 ^ bitLength (n div 2)"
      using "1.IH" "1.prems" by simp
    have pos: "0 < bitLength (n div 2)"
      using False by (simp add: bitLength.simps [of "n div 2"])
    have eq: "bitLength n = Suc (bitLength (n div 2))"
      using "1.prems" by (simp add: bitLength.simps [of n])
    have "(2::int) ^ (bitLength n - 1) = 2 * 2 ^ (bitLength (n div 2) - 1)"
      using pos eq by (cases "bitLength (n div 2)") simp_all
    also have "\<dots> \<le> 2 * (n div 2)" using ih by simp
    also have "\<dots> \<le> n" by simp
    finally have a: "2 ^ (bitLength n - 1) \<le> n" .
    have "n < 2 * (n div 2) + 2" by presburger
    also have "\<dots> \<le> 2 * 2 ^ bitLength (n div 2)" using ih by simp
    finally have b: "n < 2 ^ bitLength n" using eq by simp
    show ?thesis using a b by simp
  qed
qed

lemma binade_le: assumes "0 < q" shows "pow2 (binade q) \<le> q"
proof -
  obtain a b where ab: "quotient_of q = (a, b)" by (cases "quotient_of q")
  then have b: "0 < b" and q: "q = of_int a / of_int b"
    using quotient_of_denom_pos [of q a b] quotient_of_div [of q a b] by auto
  have a: "0 < a" using assms b q by (simp add: zero_less_divide_iff)
  define la where "la = bitLength a"
  define lb where "lb = bitLength b"
  have la: "2 ^ (la - 1) \<le> a" "0 < la"
    using bitLength_bounds [of a] a unfolding la_def
    by (auto simp: bitLength.simps [of a])
  have lb: "b < 2 ^ lb"
    using bitLength_bounds [of b] b unfolding lb_def by auto
  have 1: "(2::rat) ^ (la - 1) \<le> of_int a"
  proof -
    have "(of_int (2 ^ (la - 1)) :: rat) \<le> of_int a" using la(1) by (simp only: of_int_le_iff)
    then show ?thesis by simp
  qed
  have 2: "of_int b < (2::rat) ^ lb"
  proof -
    have "(of_int b :: rat) < of_int (2 ^ lb)" using lb by (simp only: of_int_less_iff)
    then show ?thesis by simp
  qed
  have "pow2 (int la - int lb - 1) = 2 ^ (la - 1) / 2 ^ lb"
  proof -
    obtain m where m: "la = Suc m" using la(2) by (cases la) auto
    have "pow2 (int m - int lb) = 2 ^ m / 2 ^ lb"
      by (simp add: pow2_powi power_int_diff)
    then show ?thesis by (simp add: m)
  qed
  also have "\<dots> \<le> of_int a / of_int b"
    using 1 2 a b by (intro frac_le) auto
  finally have low: "pow2 (int la - int lb - 1) \<le> q" using q by simp
  show ?thesis
    using low ab by (simp add: binade_def Let_def la_def lb_def)
qed

lemma roundTiesToEven_error: "\<bar>of_int (roundTiesToEven y) - y\<bar> \<le> 1 / 2"
proof -
  have "of_int \<lfloor>y\<rfloor> \<le> y" "y < of_int \<lfloor>y\<rfloor> + 1" by linarith+
  then show ?thesis
    by (auto simp: roundTiesToEven_def Let_def)
qed

lemma nearestDouble_error:
  "\<bar>nearestDouble q - q\<bar> \<le> max (\<bar>q\<bar> / 2 ^ 53) (pow2 (- 1075))"
proof (cases "q = 0")
  case True
  then show ?thesis using pow2_pos [of "- 1075"] by (simp add: nearestDouble_def)
next
  case False
  define e where "e = max (binade \<bar>q\<bar>) (- 1022)"
  define u where "u = pow2 (e - 52)"
  have u: "0 < u" by (simp add: u_def pow2_pos)
  have nd: "nearestDouble q = of_int (roundTiesToEven (q / u)) * u"
    using False by (simp add: nearestDouble_def Let_def u_def e_def)
  have "nearestDouble q - q = (of_int (roundTiesToEven (q / u)) - q / u) * u"
    using u by (simp add: nd field_simps)
  then have "\<bar>nearestDouble q - q\<bar> = \<bar>of_int (roundTiesToEven (q / u)) - q / u\<bar> * u"
    using u by (simp add: abs_mult)
  also have "\<dots> \<le> (1 / 2) * u"
    using roundTiesToEven_error [of "q / u"] u by (intro mult_right_mono) auto
  also have "\<dots> = pow2 (e - 53)"
    by (simp add: u_def pow2_powi power_int_diff)
  finally have err: "\<bar>nearestDouble q - q\<bar> \<le> pow2 (e - 53)" .
  show ?thesis
  proof (cases "binade \<bar>q\<bar> \<le> - 1022")
    case True
    then have "e = - 1022" by (simp add: e_def)
    then show ?thesis using err by simp
  next
    case False
    then have "e = binade \<bar>q\<bar>" by (simp add: e_def)
    then have "pow2 (e - 53) = pow2 (binade \<bar>q\<bar>) / 2 ^ 53"
      by (simp add: pow2_powi power_int_diff)
    also have "\<dots> \<le> \<bar>q\<bar> / 2 ^ 53"
      using binade_le [of "\<bar>q\<bar>"] \<open>q \<noteq> 0\<close> by (simp add: divide_right_mono)
    finally show ?thesis using err by simp
  qed
qed


lemma nearestDouble_upper: assumes "q \<le> 1" shows "nearestDouble q \<le> max q 0 + 1 / 2 ^ 53"
proof -
  have tiny: "pow2 (- 1075) \<le> 1 / 2 ^ 53"
    by (simp add: pow2_def)
  have err: "nearestDouble q - q \<le> max (\<bar>q\<bar> / 2 ^ 53) (pow2 (- 1075))"
    using nearestDouble_error [of q] by linarith
  show ?thesis
  proof (cases "0 \<le> q")
    case True
    then have "\<bar>q\<bar> / 2 ^ 53 \<le> 1 / 2 ^ 53"
      using assms by (simp add: divide_right_mono)
    then show ?thesis using err tiny True by simp
  next
    case False
    then have "q + \<bar>q\<bar> / 2 ^ 53 \<le> 0"
      by (simp add: field_simps)
    then show ?thesis using err tiny False by (simp add: max_def split: if_splits)
  qed
qed

lemma nearestDouble_lower: assumes "0 \<le> q" "q \<le> 1" shows "q - 1 / 2 ^ 53 \<le> nearestDouble q"
proof -
  have tiny: "pow2 (- 1075) \<le> 1 / 2 ^ 53"
    by (simp add: pow2_def)
  have "\<bar>q\<bar> / 2 ^ 53 \<le> 1 / 2 ^ 53"
    using assms by (simp add: divide_right_mono)
  then have "max (\<bar>q\<bar> / 2 ^ 53) (pow2 (- 1075)) \<le> 1 / 2 ^ 53"
    using tiny by (rule max.boundedI)
  then have "\<bar>nearestDouble q - q\<bar> \<le> 1 / 2 ^ 53"
    using nearestDouble_error [of q] by (rule order_trans [rotated])
  then show ?thesis by linarith
qed

lemma toDouble_small:
  assumes "0 \<le> q" "q \<le> 1"
  shows "\<exists>r. toDouble q = Num r \<and> q - 1 / 2 ^ 53 \<le> r \<and> r \<le> q + 1 / 2 ^ 53"
proof -
  have u: "nearestDouble q \<le> q + 1 / 2 ^ 53"
    using nearestDouble_upper [of q] assms by simp
  have l: "q - 1 / 2 ^ 53 \<le> nearestDouble q"
    using nearestDouble_lower [of q] assms by simp
  have "nearestDouble q \<le> 2" using u assms by simp
  moreover have "- 1 \<le> nearestDouble q" using l assms by simp
  ultimately have "toDouble q = Num (nearestDouble q)"
    by (simp add: toDouble_def Let_def)
  then show ?thesis using u l by simp
qed

text \<open>Integers below \<open>2^53\<close> in magnitude are doubles: rounding leaves them as they are.\<close>

lemma roundTiesToEven_int: "roundTiesToEven (of_int m) = m"
  by (simp add: roundTiesToEven_def)

lemma nearestDouble_int:
  assumes "\<bar>n\<bar> < 2 ^ 53"
  shows "nearestDouble (of_int n) = of_int n"
proof (cases "n = 0")
  case True
  then show ?thesis by (simp add: nearestDouble_def)
next
  case False
  define q :: rat where "q = of_int n"
  define e where "e = max (binade \<bar>q\<bar>) (- 1022)"
  have q0: "q \<noteq> 0" "0 < \<bar>q\<bar>" using False by (simp_all add: q_def)
  have "\<bar>q\<bar> < 2 ^ 53"
  proof -
    have "(of_int \<bar>n\<bar> :: rat) < of_int (2 ^ 53)" using assms by (simp only: of_int_less_iff)
    then show ?thesis by (simp add: q_def)
  qed
  then have small: "pow2 (binade \<bar>q\<bar>) < 2 ^ 53"
    using binade_le [OF q0(2)] by linarith
  have "binade \<bar>q\<bar> < 53"
  proof (rule ccontr)
    assume "\<not> binade \<bar>q\<bar> < 53"
    then have b: "53 \<le> nat (binade \<bar>q\<bar>)" "0 \<le> binade \<bar>q\<bar>" by simp_all
    have "(2::rat) ^ 53 \<le> 2 ^ nat (binade \<bar>q\<bar>)"
      using b(1) by (intro power_increasing) auto
    moreover have "pow2 (binade \<bar>q\<bar>) = 2 ^ nat (binade \<bar>q\<bar>)"
      using b(2) by (simp add: pow2_def)
    ultimately show False using small by linarith
  qed
  then have e: "e \<le> 52" by (simp add: e_def)
  define j where "j = nat (52 - e)"
  have u: "pow2 (e - 52) = 1 / 2 ^ j"
    using e by (cases "e = 52") (simp_all add: pow2_def j_def)
  have "q / pow2 (e - 52) = of_int (n * 2 ^ j)"
    by (simp add: u q_def)
  then have "roundTiesToEven (q / pow2 (e - 52)) = n * 2 ^ j"
    using roundTiesToEven_int [of "n * 2 ^ j"] by simp
  then have "nearestDouble q = of_int (n * 2 ^ j) * (1 / 2 ^ j)"
    using q0(1) by (simp add: nearestDouble_def Let_def e_def [symmetric] u)
  then show ?thesis by (simp add: q_def)
qed

lemma toDouble_int:
  assumes "\<bar>n\<bar> < 2 ^ 53"
  shows "toDouble (of_int n) = Num (of_int n)"
proof -
  have "(of_int \<bar>n\<bar> :: rat) < of_int (2 ^ 53)" using assms by (simp only: of_int_less_iff)
  then have "\<bar>of_int n :: rat\<bar> < 2 ^ 1024" by simp
  then show ?thesis
    using nearestDouble_int [OF assms] by (simp add: toDouble_def Let_def abs_less_iff not_le)
qed

lemma toDouble_0: "toDouble 0 = Num 0"
  using toDouble_int [of 0] by simp

lemma toDouble_1: "toDouble 1 = Num 1"
  using toDouble_int [of 1] by simp

lemma toDouble_numeral: "numeral k < (2::int) ^ 53 \<Longrightarrow> toDouble (numeral k) = Num (numeral k)"
  using toDouble_int [of "numeral k"] by simp

text \<open>
  The literals \<^verbatim>\<open>0.01\<close> and \<^verbatim>\<open>0.8\<close> are the doubles nearest to them.
  \<open>consistencyAt n\<close> is the value of \<open>consistency\<close> after \<open>n\<close> runs of line 381.
\<close>

definition decreaseStep :: number where
  "decreaseStep = toDouble (1 / 100)"

definition consistencyThreshold :: number where
  "consistencyThreshold = toDouble (4 / 5)"

fun consistencyAt :: "nat \<Rightarrow> number" where
  "consistencyAt 0 = Num 1"
| "consistencyAt (Suc n) = fsub (consistencyAt n) decreaseStep"

lemma consistencyAt_bound:
  "consistencyAt k = NegInf \<or> (\<exists>c. consistencyAt k = Num c \<and> c \<le> max (1 - of_nat k / 128) (1 / 2))"
proof (induction k)
  case 0
  show ?case by simp
next
  case (Suc k)
  obtain s where s: "decreaseStep = Num s" "1 / 100 - 1 / 2 ^ 53 \<le> s"
    using toDouble_small [of "1 / 100"] unfolding decreaseStep_def by auto
  from Suc show ?case
  proof
    assume "consistencyAt k = NegInf"
    then show ?thesis by (simp add: fsub_def s)
  next
    assume "\<exists>c. consistencyAt k = Num c \<and> c \<le> max (1 - of_nat k / 128) (1 / 2)"
    then obtain c where c: "consistencyAt k = Num c" "c \<le> max (1 - of_nat k / 128) (1 / 2)"
      by auto
    have c1: "c \<le> 1" using c(2) by (simp add: max_def split: if_splits)
    define q where "q = c + - s"
    have q1: "q \<le> 1" using c1 s(2) by (simp add: q_def)
    have r: "nearestDouble q \<le> max q 0 + 1 / 2 ^ 53"
      using nearestDouble_upper [OF q1] .
    have "max q 0 + 1 / 2 ^ 53 \<le> max (1 - of_nat (Suc k) / 128) (1 / 2)"
      using c(2) s(2) by (simp add: q_def max_def field_simps split: if_splits)
    then have b: "nearestDouble q \<le> max (1 - of_nat (Suc k) / 128) (1 / 2)"
      using r by linarith
    moreover have "max (1 - of_nat (Suc k) / 128) (1 / 2) \<le> (1::rat)"
      by simp
    moreover have "(1::rat) < 2 ^ 1024"
      by simp
    ultimately have "nearestDouble q < 2 ^ 1024"
      by linarith
    then have "toDouble q = NegInf \<or> toDouble q = Num (nearestDouble q)"
      by (simp add: toDouble_def Let_def)
    moreover have "consistencyAt (Suc k) = toDouble q"
      by (simp add: fsub_def c(1) s(1) q_def)
    ultimately show ?thesis using b by auto
  qed
qed

lemma consistency_rounds: assumes "fgt (consistencyAt k) consistencyThreshold" shows "k < 32"
proof -
  obtain t where t: "consistencyThreshold = Num t" "4 / 5 - 1 / 2 ^ 53 \<le> t"
    using toDouble_small [of "4 / 5"] unfolding consistencyThreshold_def by auto
  from consistencyAt_bound [of k] show ?thesis
  proof
    assume "consistencyAt k = NegInf"
    then show ?thesis using assms by (simp add: fgt_def t(1))
  next
    assume "\<exists>c. consistencyAt k = Num c \<and> c \<le> max (1 - of_nat k / 128) (1 / 2)"
    then obtain c where c: "consistencyAt k = Num c" "c \<le> max (1 - of_nat k / 128) (1 / 2)"
      by auto
    have "t < c" using assms by (simp add: fgt_def t(1) c(1))
    then have "3 / 4 < max (1 - (of_nat k :: rat) / 128) (1 / 2)"
      using t(2) c(2) by simp
    then have "(of_nat k :: rat) < 32"
      by (simp add: max_def split: if_splits)
    then show ?thesis by simp
  qed
qed

text \<open>Lines 299 to 306: the occurrences of each of the codes 0 to 126 on one line.\<close>

definition asciiMax :: nat where
  "asciiMax = 127"

definition asciiTable :: "string \<Rightarrow> nat list" where
  "asciiTable line =
     foldl (\<lambda>ascii c. (let i = of_char c in if i < length ascii then ascii[i := ascii ! i + 1] else ascii))
       (replicate asciiMax 0) line"

text \<open>
  Lines 322 to 326: \<open>freqTable\<close> is a sparse array; here a missing element is 0, as
  \<^verbatim>\<open>!freqTable[k]\<close> reads it, and an element that is present is at least 1.
\<close>

definition bump :: "nat list \<Rightarrow> nat \<Rightarrow> nat list" where
  "bump freqTable k =
     (if k < length freqTable then freqTable[k := freqTable ! k + 1]
      else freqTable @ replicate (k - length freqTable) 0 @ [1])"

definition freqTableOf :: "nat list list \<Rightarrow> nat \<Rightarrow> nat list" where
  "freqTableOf asciiTables i = foldl (\<lambda>freqTable d. bump freqTable (d ! i)) [] asciiTables"

text \<open>
  Lines 335 to 359: \<open>None\<close> for a character that is on no line (the \<^verbatim>\<open>continue\<close>), else
  \<open>(maxFreq, mode)\<close>: the first occurrence count with the highest meta-frequency, and twice
  that meta-frequency minus the sum of all of them.
\<close>

definition modeOf :: "nat list \<Rightarrow> (nat \<times> int) option" where
  "modeOf freqTable =
     (let keys = filter (\<lambda>k. freqTable ! k \<noteq> 0) [0..<length freqTable] in
      if keys = [0] then None
      else (case foldl (\<lambda>max freq.
                          (let metaFreq = int (freqTable ! freq) in
                           case max of
                             None \<Rightarrow> Some (freq, metaFreq)
                           | Some (f, m) \<Rightarrow> if m < metaFreq then Some (freq, metaFreq) else max))
                   None keys of
              None \<Rightarrow> None
            | Some (maxFreq, maxMetaFreq) \<Rightarrow>
                Some (maxFreq, maxMetaFreq - (int (sum_list freqTable) - maxMetaFreq))))"

definition modesOf :: "nat list list \<Rightarrow> (nat \<times> int) option list" where
  "modesOf asciiTables = map (\<lambda>i. modeOf (freqTableOf asciiTables i)) [0..<asciiMax]"

text \<open>Lines 374 to 380: the characters that pass at one value of \<open>consistency\<close>, in the order of their codes.\<close>

definition delimsAt :: "(nat \<times> int) option list \<Rightarrow> nat \<Rightarrow> char list option \<Rightarrow> number \<Rightarrow> char list" where
  "delimsAt modes nrLines delimiters consistency =
     concat (map (\<lambda>i.
        (case modes ! i of
           None \<Rightarrow> []
         | Some (maxFreq, mode) \<Rightarrow>
             if maxFreq = 0 \<or> mode \<le> 0 then []
             else (let delim = char_of i in
                   if fge (fdiv (Num (of_int mode)) (ofNat nrLines)) consistency \<and>
                      allowed delimiters delim
                   then [delim] else [])))
       [0..<length modes])"

function findDelims :: "(nat \<times> int) option list \<Rightarrow> nat \<Rightarrow> char list option \<Rightarrow> nat \<Rightarrow> char list" where
  "findDelims modes nrLines delimiters n =
     (if fgt (consistencyAt n) consistencyThreshold
      then (let delims = delimsAt modes nrLines delimiters (consistencyAt n) in
            if delims = [] then findDelims modes nrLines delimiters (Suc n) else delims)
      else [])"
  by pat_completeness auto
termination
proof (relation "measure (\<lambda>(modes, nrLines, delimiters, n). 32 - n)")
  show "wf (measure (\<lambda>(modes, nrLines, delimiters, n). 32 - n))" by simp
next
  fix modes :: "(nat \<times> int) option list" and nrLines n :: nat and delimiters :: "char list option"
  assume "fgt (consistencyAt n) consistencyThreshold"
  then have "n < 32" by (rule consistency_rounds)
  then show "((modes, nrLines, delimiters, Suc n), (modes, nrLines, delimiters, n))
      \<in> measure (\<lambda>(modes, nrLines, delimiters, n). 32 - n)"
    by simp
qed

declare findDelims.simps [simp del]

definition knownDelimiters :: "char list" where
  "knownDelimiters = [CHR '','', TAB, CHR '';'', CHR '' '', CHR '':'', CHR ''|'']"

text \<open>
  Lines 393 to 397 call \<^verbatim>\<open>forEach\<close> with a function that returns a known delimiter
  found among \<open>delims\<close>; \<^verbatim>\<open>forEach\<close> drops what its function returns, so these values,
  \<open>found\<close> below, are not used, and line 400 returns the first element of \<open>delims\<close>.
\<close>

definition guessDelimiter :: "string \<Rightarrow> string \<Rightarrow> char list option \<Rightarrow> char option" where
  "guessDelimiter sample newlineStr delimiters =
     (let asciiTables = map asciiTable (terminatedLines newlineStr sample);
          nrLines = length asciiTables
      in if nrLines = 0 then None
         else
           (let delims = findDelims (modesOf asciiTables) nrLines delimiters 0 in
            case delims of
              [] \<Rightarrow> None
            | [d] \<Rightarrow> Some d
            | d # _ \<Rightarrow>
                (let found = map (\<lambda>k. if k \<in> set delims then Some k else None) knownDelimiters
                 in Some d)))"

section \<open>Parsing the sample\<close>

text \<open>
  \<^verbatim>\<open>parseSample(sample, newlineStr, delimiter, quotechar)\<close>, lines 403 to 468. The
  delimiter and the quote character are a string or \<^verbatim>\<open>null\<close> (\<open>None\<close>).
  \<^verbatim>\<open>line.split(null)\<close> splits at the text \<^verbatim>\<open>null\<close>, the string that \<^verbatim>\<open>null\<close> converts to.
\<close>

definition splitLine :: "string option \<Rightarrow> string \<Rightarrow> string list" where
  "splitLine delimiter line = (case delimiter of None \<Rightarrow> split ''null'' line | Some d \<Rightarrow> split d line)"

text \<open>
  The loop of lines 426 to 464 over the characters that are left, \<open>c # cs\<close>, with the
  state \<open>insideQuotes\<close>, \<open>escape\<close>, \<open>curVal\<close>, \<open>vals\<close> and \<open>result\<close>. After a newline the
  loop goes on at the next character, whatever the length of \<open>newlineStr\<close>.
\<close>

fun parseQuoted :: "string \<Rightarrow> string option \<Rightarrow> string \<Rightarrow> bool \<Rightarrow> bool \<Rightarrow> string \<Rightarrow> string list \<Rightarrow>
    string list list \<Rightarrow> string \<Rightarrow> string list list" where
  "parseQuoted newlineStr delimiter quotechar insideQuotes escape curVal vals result [] = result"
| "parseQuoted newlineStr delimiter quotechar insideQuotes escape curVal vals result (c # cs) =
     (if \<not> escape \<and> c = CHR 0x5C then
        parseQuoted newlineStr delimiter quotechar insideQuotes True curVal vals result cs
      else if \<not> escape \<and> [c] = quotechar then
        parseQuoted newlineStr delimiter quotechar (\<not> insideQuotes) escape curVal vals result cs
      else if \<not> escape \<and> \<not> insideQuotes \<and> (prefix newlineStr (c # cs) \<or> Some [c] = delimiter) then
        (if prefix newlineStr (c # cs) then
           (let pushed = vals @ [curVal];
                row = (if last pushed = [] then butlast pushed else pushed)
            in parseQuoted newlineStr delimiter quotechar insideQuotes escape [] [] (result @ [row]) cs)
         else
           parseQuoted newlineStr delimiter quotechar insideQuotes escape [] (vals @ [curVal]) result cs)
      else
        parseQuoted newlineStr delimiter quotechar insideQuotes False (curVal @ [c]) vals result cs)"

definition parseSample :: "string \<Rightarrow> string \<Rightarrow> string option \<Rightarrow> string option \<Rightarrow> string list list" where
  "parseSample sample newlineStr delimiter quotechar =
     (case (case quotechar of None \<Rightarrow> None | Some q \<Rightarrow> if q = [] then None else Some q) of
        None \<Rightarrow>
          (let lines = split newlineStr sample;
               lines = (if 1 < length lines then butlast lines else lines)
           in map (splitLine delimiter) lines)
      | Some q \<Rightarrow> parseQuoted newlineStr delimiter q False False [] [] [] sample)"

section \<open>Column types of the parsed sample\<close>

text \<open>\<^verbatim>\<open>getTypes(parsedSample)\<close>, lines 484 to 527.\<close>

record types =
  first :: "coltype list"
  tail :: "coltype list"
  all :: "coltype list"

definition getTypes :: "string list list \<Rightarrow> types" where
  "getTypes parsedSample =
     (case parsedSample of
        [] \<Rightarrow> \<lparr>first = [], tail = [], all = []\<rparr>
      | firstValues # rows \<Rightarrow>
          (let first = map (\<lambda>col. getAccumulatedType col IntegerT) firstValues;
               tail = foldl (\<lambda>tail cols.
                               if length cols \<noteq> length first then tail
                               else map2 getAccumulatedType cols tail)
                        (map (\<lambda>col. IntegerT) firstValues) rows;
               all = map2 getAccumulatedType firstValues tail
           in \<lparr>first = first, tail = tail, all = all\<rparr>))"

section \<open>Header detection\<close>

text \<open>\<^verbatim>\<open>hasHeader(parsedSample)\<close>, lines 529 to 604; its result has the fields \<^verbatim>\<open>types\<close> and \<^verbatim>\<open>hasHeader\<close>.\<close>

record headerData =
  hd_types :: "coltype list"
  hd_hasHeader :: bool

definition lengthsTailOf :: "string list list \<Rightarrow> nat list list" where
  "lengthsTailOf parsedSample =
     (case parsedSample of
        [] \<Rightarrow> []
      | firstValues # rows \<Rightarrow>
          foldl (\<lambda>lengthsTail cols.
                   if length cols \<noteq> length firstValues then lengthsTail
                   else map2 (\<lambda>lengths col. lengths @ [length col]) lengthsTail cols)
            (map (\<lambda>col. []) firstValues) rows)"

definition hasHeader :: "string list list \<Rightarrow> headerData" where
  "hasHeader parsedSample =
     (let firstValues = (case parsedSample of [] \<Rightarrow> [] | cols # rows \<Rightarrow> cols);
          lengthsTail = lengthsTailOf parsedSample;
          types = getTypes parsedSample;
          vote = foldl (\<lambda>vote i.
                   (let col = firstValues ! i in
                    if first types ! i \<noteq> tail types ! i \<and> first types ! i = StringT then vote + 2
                    else
                      (let sum = foldl (\<lambda>sum d. fadd sum (ofNat d)) (Num 0) (lengthsTail ! i);
                           avg = fdiv sum (ofNat (length (lengthsTail ! i)));
                           diffSqSum = foldl (\<lambda>diffSqSum d.
                                          fadd diffSqSum (fmul (fsub avg (ofNat d)) (fsub avg (ofNat d))))
                                        (Num 0) (lengthsTail ! i);
                           sd = fdiv diffSqSum (ofNat (length (lengthsTail ! i)));
                           tolerance = fmul (Num 2) sd
                       in if fgt (fabs (fsub (ofNat (length col)) avg)) tolerance
                          then vote + 1 else vote - 1)))
                   (0::int) [0..<length firstValues];
          hasHeader = (0 < vote)
      in \<lparr>hd_types = (if hasHeader then tail types else all types), hd_hasHeader = hasHeader\<rparr>)"

section \<open>The sniffer\<close>

text \<open>
  \<^verbatim>\<open>CSVSniffer.prototype.sniff(sample, options)\<close>, lines 623 to 667. \<open>delimiters\<close> is
  \<^verbatim>\<open>this.delimiters\<close>. A call without options is a call with \<open>noOptions\<close>. The exception of
  line 631 is the error \<open>NoNewlineFound\<close>.
\<close>

datatype error = NoNewlineFound

record options =
  opt_newlineStr :: "string jsval"
  opt_delimiter :: "string jsval"
  opt_quoteChar :: "string jsval"
  opt_hasHeader :: "bool jsval"

definition noOptions :: options where
  "noOptions = \<lparr>opt_newlineStr = Undefined, opt_delimiter = Undefined,
                opt_quoteChar = Undefined, opt_hasHeader = Undefined\<rparr>"

record sniffResult =
  warnings :: "string list"
  newlineStr :: string
  delimiter :: "string option"
  quoteChar :: "string option"
  res_hasHeader :: bool
  res_types :: "coltype list"
  labels :: "string list option"
  records :: "string list list"

text \<open>A string option as \<^verbatim>\<open>||\<close> and \<^verbatim>\<open>!\<close> read it: \<^verbatim>\<open>undefined\<close>, \<^verbatim>\<open>null\<close> and \<^verbatim>\<open>""\<close> are falsy.\<close>

definition truthy :: "string jsval \<Rightarrow> string option" where
  "truthy v = (case v of Value s \<Rightarrow> if s = [] then None else Some s | _ \<Rightarrow> None)"

text \<open>How \<^verbatim>\<open>+\<close> turns an option into text, and the value that is left of an option once \<^verbatim>\<open>undefined\<close> is ruled out.\<close>

definition toText :: "string jsval \<Rightarrow> string" where
  "toText v = (case v of Undefined \<Rightarrow> ''undefined'' | Null \<Rightarrow> ''null'' | Value s \<Rightarrow> s)"

definition toOption :: "string jsval \<Rightarrow> string option" where
  "toOption v = (case v of Value s \<Rightarrow> Some s | _ \<Rightarrow> None)"

text \<open>Line 629: the newline string of the options when it is truthy, else the detected one.\<close>

definition resolveNewline :: "string \<Rightarrow> options \<Rightarrow> string option" where
  "resolveNewline sample options =
     (case truthy (opt_newlineStr options) of
        Some s \<Rightarrow> Some s
      | None \<Rightarrow> getNewlineStr sample)"

text \<open>
  Lines 633 to 666, once the newline string \<open>nl\<close> is known. \<open>trusted\<close> is the condition
  of lines 634 and 637 under which the guess of \<open>guessQuoteAndDelimiter\<close> is used.
\<close>

definition sniffWith :: "char list option \<Rightarrow> string \<Rightarrow> options \<Rightarrow> string \<Rightarrow> sniffResult" where
  "sniffWith delimiters sample options nl =
     (let quoteAndDelim = guessQuoteAndDelimiter sample nl delimiters;
          trusted = (opt_quoteChar options = Undefined \<and> delim quoteAndDelim \<noteq> None \<and>
                     (quote quoteAndDelim = Some (CHR 0x27) \<or>
                      quote quoteAndDelim = Some (CHR 0x22)));
          guessed = (case delim quoteAndDelim of None \<Rightarrow> [] | Some d \<Rightarrow> [d]);
          warnings =
            (if trusted \<and> opt_delimiter options \<noteq> Undefined \<and>
                opt_delimiter options \<noteq> Value guessed
             then [''Difference found in delimiters. User proposed '' @
                   toText (opt_delimiter options) @
                   '' but we believe it should be '' @ guessed]
             else []);
          quoteChar =
            (if opt_quoteChar options = Undefined
             then (if trusted then map_option (\<lambda>q. [q]) (quote quoteAndDelim) else None)
             else toOption (opt_quoteChar options));
          delimiter =
            (if trusted \<and> opt_delimiter options = Undefined then Value guessed
             else opt_delimiter options);
          delimiter =
            (case truthy delimiter of
               Some d \<Rightarrow> Some d
             | None \<Rightarrow> map_option (\<lambda>d. [d]) (guessDelimiter sample nl delimiters));
          parsedSample = parseSample sample nl delimiter quoteChar;
          hasHeaderData = hasHeader parsedSample;
          header =
            (case opt_hasHeader options of
               Value b \<Rightarrow> b
             | _ \<Rightarrow> hd_hasHeader hasHeaderData);
          types =
            (case opt_hasHeader options of
               Value b \<Rightarrow> (if b then tail (getTypes parsedSample) else all (getTypes parsedSample))
             | _ \<Rightarrow> hd_types hasHeaderData)
      in \<lparr>warnings = warnings,
          newlineStr = nl,
          delimiter = delimiter,
          quoteChar = quoteChar,
          res_hasHeader = header,
          res_types = types,
          labels = (if header \<and> 0 < length parsedSample
                    then Some (hd (take 1 parsedSample)) else None),
          records = (if header \<and> 0 < length parsedSample
                     then tl parsedSample else parsedSample)\<rparr>)"

definition sniff :: "char list option \<Rightarrow> string \<Rightarrow> options \<Rightarrow> error + sniffResult" where
  "sniff delimiters sample options =
     (case resolveNewline sample options of
        None \<Rightarrow> Inl NoNewlineFound
      | Some nl \<Rightarrow>
          if nl = [] then Inl NoNewlineFound
          else Inr (sniffWith delimiters sample options nl))"

section \<open>The header vote as the specification words it\<close>

text \<open>
  Section 4.6 of the specification: one vote for each column of row 0, from the types of
  the column and from the mean and the variance of the lengths of its fields in the rows
  after row 0 that have as many fields as row 0. Mean and variance are computed in double
  arithmetic, and a comparison with \<open>NaN\<close> (no such row) is false.
\<close>

definition headerRow :: "string list list \<Rightarrow> string list" where
  "headerRow parsedSample = (case parsedSample of [] \<Rightarrow> [] | cols # rows \<Rightarrow> cols)"

definition tailFieldLengths :: "string list list \<Rightarrow> nat \<Rightarrow> nat list" where
  "tailFieldLengths parsedSample i =
     map (\<lambda>row. length (row ! i))
       (filter (\<lambda>row. length row = length (headerRow parsedSample)) (tl parsedSample))"

definition mean :: "nat list \<Rightarrow> number" where
  "mean ls = fdiv (foldl (\<lambda>sum d. fadd sum (ofNat d)) (Num 0) ls) (ofNat (length ls))"

definition variance :: "nat list \<Rightarrow> number" where
  "variance ls =
     fdiv (foldl (\<lambda>acc d. fadd acc (fmul (fsub (mean ls) (ofNat d)) (fsub (mean ls) (ofNat d))))
             (Num 0) ls)
       (ofNat (length ls))"

definition columnVote :: "string list list \<Rightarrow> nat \<Rightarrow> int" where
  "columnVote parsedSample i =
     (let firstType = first (getTypes parsedSample) ! i;
          tailType = tail (getTypes parsedSample) ! i;
          lengths = tailFieldLengths parsedSample i
      in if firstType \<noteq> tailType \<and> firstType = StringT then 2
         else if fgt (fabs (fsub (ofNat (length (headerRow parsedSample ! i))) (mean lengths)))
                     (fmul (Num 2) (variance lengths))
              then 1 else - 1)"

definition totalVote :: "string list list \<Rightarrow> int" where
  "totalVote parsedSample =
     sum_list (map (columnVote parsedSample) [0..<length (headerRow parsedSample)])"

section \<open>The rows of a quoted sample as the specification words them\<close>

text \<open>
  Section 4.4 of the specification, without the text of the fields: a backslash escapes the
  next character, an unescaped quote character toggles \<open>insideQuotes\<close>, and outside
  quotes an unescaped newline string ends the row, after which the scan goes on behind the
  whole newline string (\<open>skip\<close> counts its characters still to pass). For every row
  that is ended, \<open>rowShapes\<close> gives the number \<open>seen\<close> of its delimiters that are
  neither escaped nor inside quotes, and \<open>fieldEmpty\<close>: whether its last field has no
  character.
\<close>

fun rowShapes :: "string \<Rightarrow> string option \<Rightarrow> string \<Rightarrow> bool \<Rightarrow> bool \<Rightarrow> nat \<Rightarrow> bool \<Rightarrow> nat \<Rightarrow> string \<Rightarrow>
    (nat \<times> bool) list" where
  "rowShapes nl d q insideQuotes escape seen fieldEmpty skip [] = []"
| "rowShapes nl d q insideQuotes escape seen fieldEmpty skip (c # cs) =
     (if 0 < skip then rowShapes nl d q insideQuotes escape seen fieldEmpty (skip - 1) cs
      else if escape then rowShapes nl d q insideQuotes False seen False 0 cs
      else if c = CHR 0x5C then rowShapes nl d q insideQuotes True seen fieldEmpty 0 cs
      else if [c] = q then rowShapes nl d q (\<not> insideQuotes) False seen fieldEmpty 0 cs
      else if \<not> insideQuotes \<and> prefix nl (c # cs) then
        (seen, fieldEmpty) # rowShapes nl d q False False 0 True (length nl - 1) cs
      else if \<not> insideQuotes \<and> Some [c] = d then
        rowShapes nl d q False False (seen + 1) True 0 cs
      else rowShapes nl d q insideQuotes False seen False 0 cs)"

definition rowsOf :: "string \<Rightarrow> string \<Rightarrow> string option \<Rightarrow> string \<Rightarrow> (nat \<times> bool) list" where
  "rowsOf sample nl d q = rowShapes nl d q False False 0 True 0 sample"


section \<open>Concrete samples\<close>

text \<open>
  \<open>sample1\<close> is the sample of the concrete scenario of the specification, and
  \<open>table1\<close> its rows; \<open>sample2\<close> has a space after every comma; \<open>sample3\<close> is one
  line of two fields in single quotes; \<open>sample4\<close> is two lines of two fields, the first
  field in double quotes.
\<close>

definition sample1 :: string where
  "sample1 = ''a,b,c'' @ [LF] @ ''1,2,3'' @ [LF] @ ''4,5,6'' @ [LF]"

definition sample2 :: string where
  "sample2 = ''a, b'' @ [LF] @ ''c, d'' @ [LF]"

definition sample3 :: string where
  "sample3 = [CHR 0x27] @ ''a'' @ [CHR 0x27] @ '','' @ [CHR 0x27] @ ''b'' @ [CHR 0x27, LF]"

definition sample4 :: string where
  "sample4 = [CHR 0x22] @ ''a'' @ [CHR 0x22] @ '',b'' @ [LF] @ ''1,2'' @ [LF]"

definition table1 :: "string list list" where
  "table1 = [[''a'', ''b'', ''c''], [''1'', ''2'', ''3''], [''4'', ''5'', ''6'']]"

text \<open>The codes that line 375 lets through, whatever the value of \<open>consistency\<close>.\<close>

definition passing :: "(nat \<times> int) option list \<Rightarrow> nat list" where
  "passing modes = filter (\<lambda>i. case modes ! i of None \<Rightarrow> False | Some (maxFreq, mode) \<Rightarrow> maxFreq \<noteq> 0 \<and> 0 < mode) [0..<length modes]"

text \<open>
  Three calls that supply all four options: \<open>options9\<close> with \<^verbatim>\<open>null\<close> as delimiter and as
  quote character, \<open>options5\<close> with a quote character and a header, \<open>options6\<close> with a
  delimiter, \<^verbatim>\<open>null\<close> as quote character and no header. \<open>result9\<close> is the result for
  \<open>sample1\<close>, \<open>result5\<close> and \<open>result6\<close> are the results for the sample \<^verbatim>\<open>abc\<close>, and
  \<open>result4\<close> is the result of \<open>options5\<close> for \<open>sample4\<close>.
\<close>

definition options9 :: options where
  "options9 = \<lparr>opt_newlineStr = Value [LF], opt_delimiter = Null, opt_quoteChar = Null,
               opt_hasHeader = Value False\<rparr>"

definition result9 :: sniffResult where
  "result9 = \<lparr>warnings = [], newlineStr = [LF], delimiter = Some '','', quoteChar = None,
              res_hasHeader = False, res_types = [StringT, StringT, StringT],
              labels = None, records = table1\<rparr>"

definition options5 :: options where
  "options5 = \<lparr>opt_newlineStr = Value [LF], opt_delimiter = Value '','',
               opt_quoteChar = Value [CHR 0x22], opt_hasHeader = Value True\<rparr>"

definition result5 :: sniffResult where
  "result5 = \<lparr>warnings = [], newlineStr = [LF], delimiter = Some '','',
              quoteChar = Some [CHR 0x22], res_hasHeader = True, res_types = [],
              labels = None, records = []\<rparr>"

definition result4 :: sniffResult where
  "result4 = \<lparr>warnings = [], newlineStr = [LF], delimiter = Some '','',
              quoteChar = Some [CHR 0x22], res_hasHeader = True,
              res_types = [IntegerT, IntegerT],
              labels = Some [''a'', ''b''], records = [[''1'', ''2'']]\<rparr>"

definition options6 :: options where
  "options6 = \<lparr>opt_newlineStr = Value [LF], opt_delimiter = Value '','', opt_quoteChar = Null,
               opt_hasHeader = Value False\<rparr>"

definition result6 :: sniffResult where
  "result6 = \<lparr>warnings = [], newlineStr = [LF], delimiter = Some '','', quoteChar = None,
              res_hasHeader = False, res_types = [StringT],
              labels = None, records = [[''abc'']]\<rparr>"

section \<open>Properties of the result as the specification words them\<close>


text \<open>
  Section 8 on the fully-terminated rows of a sample. \<open>quoteInUse\<close> is the quote
  character under which line 405 takes the quoted path. Without one the rows are the lines
  that \<open>newlineStr\<close> ends; with one they are the rows that an unescaped \<open>newlineStr\<close>
  outside quotes ends.
\<close>

definition quoteInUse :: "string option \<Rightarrow> string option" where
  "quoteInUse quotechar = (case quotechar of None \<Rightarrow> None | Some q \<Rightarrow> if q = [] then None else Some q)"

definition fullyTerminatedRows :: "string \<Rightarrow> string \<Rightarrow> string option \<Rightarrow> string option \<Rightarrow> nat" where
  "fullyTerminatedRows sample nl d quotechar =
     (case quoteInUse quotechar of
        None \<Rightarrow> length (terminatedLines nl sample)
      | Some q \<Rightarrow> length (rowsOf sample nl d q))"

text \<open>
  A newline string of one character, or of two different characters the second of which is
  neither the backslash nor the quote character: the four candidates of \<open>getNewlineStr\<close>
  are such, with either quote character that \<open>guessQuoteAndDelimiter\<close> returns.
\<close>

definition plainNewline :: "string \<Rightarrow> string option \<Rightarrow> bool" where
  "plainNewline nl quotechar =
     (case nl of
        [a] \<Rightarrow> True
      | [a, b] \<Rightarrow> a \<noteq> b \<and> b \<noteq> CHR 0x5C \<and> Some [b] \<noteq> quotechar
      | _ \<Rightarrow> False)"

text \<open>
  Sections 6 and 8 on \<^verbatim>\<open>labels\<close> and \<^verbatim>\<open>records\<close>, for a result \<open>r\<close>, the parsed table and
  the number of fully-terminated rows of the sample: row 0 is the labels and is taken from
  the records whenever \<^verbatim>\<open>hasHeader\<close> is true, and the records with the header row are as
  many as the fully-terminated rows.
\<close>

definition headerRoundTrip :: "sniffResult \<Rightarrow> string list list \<Rightarrow> nat \<Rightarrow> bool" where
  "headerRoundTrip r parsed terminated =
     (labels r = (if res_hasHeader r then Some (hd parsed) else None) \<and>
      records r = (if res_hasHeader r then tl parsed else parsed) \<and>
      length (records r) + (if res_hasHeader r then 1 else 0) = terminated)"

text \<open>Section 8 on options that are all supplied: the result holds the four values as they were given.\<close>

definition suppliedKept :: "options \<Rightarrow> sniffResult \<Rightarrow> bool" where
  "suppliedKept options r =
     (opt_newlineStr options = Value (newlineStr r) \<and>
      delimiter r = toOption (opt_delimiter options) \<and>
      quoteChar r = toOption (opt_quoteChar options) \<and>
      opt_hasHeader options = Value (res_hasHeader r))"

section \<open>Type accumulation\<close>

lemma type_le_refl: "type_le t t"
  by (simp add: type_le_def)

lemma type_le_trans: "type_le a b \<Longrightarrow> type_le b c \<Longrightarrow> type_le a c"
  by (simp add: type_le_def)

lemma getAccumulatedType_mono: "type_le t (getAccumulatedType v t)"
  by (cases t) (simp_all add: getAccumulatedType_def type_le_def)

lemma accumulate_mono: "type_le t (foldl (\<lambda>acc v. getAccumulatedType v acc) t vs)"
proof (induction vs arbitrary: t)
  case Nil
  show ?case by (simp add: type_le_refl)
next
  case (Cons v vs)
  have "type_le t (getAccumulatedType v t)"
    by (rule getAccumulatedType_mono)
  moreover have "type_le (getAccumulatedType v t)
      (foldl (\<lambda>acc v. getAccumulatedType v acc) (getAccumulatedType v t) vs)"
    by (rule Cons.IH)
  ultimately show ?case
    by (auto intro: type_le_trans)
qed

text \<open>
  C7. Accumulation is monotone on the lattice \<open>integer < float < string\<close>: one step never
  yields a type below the current one, and neither does any sequence of steps, so a
  column's accumulated type only moves from integer to float to string.
\<close>

theorem C7_accumulated_type_monotone:
  "type_le t (getAccumulatedType v t) \<and>
   type_le t (foldl (\<lambda>acc v. getAccumulatedType v acc) t vs) \<and>
   type_le (foldl (\<lambda>acc v. getAccumulatedType v acc) t vs)
           (foldl (\<lambda>acc v. getAccumulatedType v acc) t (vs @ ws))"
  using getAccumulatedType_mono [of t v] accumulate_mono [of t vs]
    accumulate_mono [of "foldl (\<lambda>acc v. getAccumulatedType v acc) t vs" ws]
  by simp

lemma trim_whitespace: "list_all isWhiteSpace s \<Longrightarrow> trim s = []"
proof -
  assume "list_all isWhiteSpace s"
  then have "dropWhile isWhiteSpace s = []"
    by (simp add: list_all_iff)
  then show ?thesis
    by (simp add: trim_def del: dropWhile_eq_Nil_conv)
qed

lemma toNumber_whitespace: "list_all isWhiteSpace s \<Longrightarrow> toNumber s = Num 0"
  by (simp add: toNumber_def trim_whitespace)

text \<open>
  C10. The empty string and every string of white space only convert to the finite number
  0, whose fractional part is zero, so \<open>getAccumulatedType\<close> returns the current type
  unchanged: \<open>integer\<close> stays \<open>integer\<close>, and an empty field never weakens a column.
\<close>

theorem C10_empty_field_keeps_type:
  "getAccumulatedType [] t = t \<and>
   (list_all isWhiteSpace s \<longrightarrow>
      toNumber s = Num 0 \<and> isFinite (toNumber s) \<and> fmod1 (toNumber s) = Num 0 \<and>
      getAccumulatedType s t = t)"
proof -
  have e: "toNumber [] = Num 0"
    by (simp add: toNumber_def trim_def)
  have a: "getAccumulatedType [] t = t"
    by (cases t) (simp_all add: getAccumulatedType_def e isFinite_def fmod1_def)
  have b: "getAccumulatedType s t = t" if "list_all isWhiteSpace s"
    using toNumber_whitespace [OF that]
    by (cases t) (simp_all add: getAccumulatedType_def isFinite_def fmod1_def)
  show ?thesis
    using a b by (auto simp: toNumber_whitespace isFinite_def fmod1_def)
qed

theorem C10_empty_field_keeps_type_witness:
  "getAccumulatedType [] IntegerT = IntegerT \<and>
   list_all isWhiteSpace [CHR 0x20, TAB] \<and>
   toNumber [CHR 0x20, TAB] = Num 0 \<and>
   getAccumulatedType [CHR 0x20, TAB] IntegerT = IntegerT \<and>
   getAccumulatedType [CHR 0x20, TAB] FloatT = FloatT"
  using C10_empty_field_keeps_type [of IntegerT "[CHR 0x20, TAB]"]
    C10_empty_field_keeps_type [of FloatT "[CHR 0x20, TAB]"]
  by (simp add: isWhiteSpace_def whiteSpaceChars_def)

section \<open>The allowed delimiters\<close>

lemma increment_keys:
  assumes "x \<in> set (increment cs k)"
  shows "fst x = k \<or> (\<exists>y \<in> set cs. fst y = fst x)"
proof (cases "map_of cs k")
  case None
  then show ?thesis using assms by (auto simp: increment_def)
next
  case (Some n)
  then show ?thesis using assms by (auto simp: increment_def split: if_splits)
qed

lemma delimCounters_allowed_aux:
  "\<forall>x \<in> set acc. allowed ds (fst x) \<Longrightarrow>
   \<forall>x \<in> set (foldl (\<lambda>counters d.
              (case delim d of
                 None \<Rightarrow> counters
               | Some c \<Rightarrow> if allowed ds c then increment counters c else counters)) acc ms).
      allowed ds (fst x)"
proof (induction ms arbitrary: acc)
  case Nil
  then show ?case by simp
next
  case (Cons m ms)
  have "\<forall>x \<in> set (case delim m of
                 None \<Rightarrow> acc
               | Some c \<Rightarrow> if allowed ds c then increment acc c else acc). allowed ds (fst x)"
  proof
    fix x
    assume x: "x \<in> set (case delim m of
                 None \<Rightarrow> acc
               | Some c \<Rightarrow> if allowed ds c then increment acc c else acc)"
    show "allowed ds (fst x)"
    proof (cases "delim m")
      case None
      then show ?thesis using x Cons.prems by simp
    next
      case (Some c)
      show ?thesis
      proof (cases "allowed ds c")
        case True
        then have "x \<in> set (increment acc c)" using x Some by simp
        then have "fst x = c \<or> (\<exists>y \<in> set acc. fst y = fst x)" by (rule increment_keys)
        then show ?thesis using True Cons.prems by auto
      next
        case False
        then show ?thesis using x Some Cons.prems by simp
      qed
    qed
  qed
  then show ?case
    unfolding foldl_Cons by (rule Cons.IH)
qed

lemma delimCounters_allowed: "x \<in> set (delimCounters ms ds) \<Longrightarrow> allowed ds (fst x)"
  using delimCounters_allowed_aux [of "[]" ds ms] unfolding delimCounters_def by simp

lemma maxCount_aux:
  "fst (foldl (\<lambda>(winner, maxCount) d.
                   (let n = (case map_of counters d of None \<Rightarrow> 0 | Some n \<Rightarrow> int n)
                    in if maxCount < n then (Some d, n) else (winner, maxCount))) (w, m) ks) = Some d
   \<Longrightarrow> w = Some d \<or> d \<in> set ks"
proof (induction ks arbitrary: w m)
  case Nil
  then show ?case by simp
next
  case (Cons k ks)
  define n where "n = (case map_of counters k of None \<Rightarrow> 0 | Some n \<Rightarrow> int n)"
  show ?case
  proof (cases "m < n")
    case True
    then have "Some k = Some d \<or> d \<in> set ks"
      using Cons.prems Cons.IH [of "Some k" n] by (simp add: n_def Let_def)
    then show ?thesis by auto
  next
    case False
    then have "w = Some d \<or> d \<in> set ks"
      using Cons.prems Cons.IH [of w m] by (simp add: n_def Let_def)
    then show ?thesis by auto
  qed
qed

lemma objectKeys_subset:
  assumes "d \<in> set (objectKeys cs)"
  shows "\<exists>x \<in> set cs. fst x = d"
proof -
  have "d \<in> set (filter (\<lambda>d. d \<in> set (map fst cs)) ''0123456789'') \<or>
        d \<in> set (filter (\<lambda>k. k \<notin> set ''0123456789'') (map fst cs))"
    using assms by (simp only: objectKeys_def set_append Un_iff)
  then have "d \<in> set (map fst cs)"
    unfolding set_filter by blast
  then show ?thesis by auto
qed

lemma maxCount_key:
  assumes "maxCount cs = Some d"
  shows "\<exists>x \<in> set cs. fst x = d"
proof -
  have "None = Some d \<or> d \<in> set (objectKeys cs)"
    using assms unfolding maxCount_def by (rule maxCount_aux)
  then show ?thesis using objectKeys_subset by auto
qed

lemma guessQuoteAndDelimiter_allowed:
  assumes "delim (guessQuoteAndDelimiter s nl ds) = Some d"
  shows "allowed ds d"
proof -
  have "maxCount (delimCounters (allMatches s nl) ds) = Some d"
    using assms by (auto simp: guessQuoteAndDelimiter_def Let_def split: if_splits)
  then obtain x where "x \<in> set (delimCounters (allMatches s nl) ds)" "fst x = d"
    using maxCount_key by blast
  then show ?thesis
    using delimCounters_allowed by blast
qed

lemma delimsAt_allowed: "d \<in> set (delimsAt modes n ds c) \<Longrightarrow> allowed ds d"
  by (auto simp: delimsAt_def Let_def split: option.splits if_splits)

lemma findDelims_allowed: "d \<in> set (findDelims modes n ds k) \<Longrightarrow> allowed ds d"
proof (induction modes n ds k rule: findDelims.induct)
  case (1 modes nrLines delimiters n)
  show ?case
  proof (cases "delimsAt modes nrLines delimiters (consistencyAt n) = []")
    case True
    then show ?thesis
      using "1.prems" "1.IH" by (subst (asm) findDelims.simps) (auto simp: Let_def split: if_splits)
  next
    case False
    then show ?thesis
      using "1.prems" by (subst (asm) findDelims.simps) (auto simp: Let_def split: if_splits dest: delimsAt_allowed)
  qed
qed

lemma guessDelimiter_allowed: "guessDelimiter s nl ds = Some d \<Longrightarrow> allowed ds d"
proof -
  assume a: "guessDelimiter s nl ds = Some d"
  define delims where "delims = findDelims (modesOf (map asciiTable (terminatedLines nl s))) (length (terminatedLines nl s)) ds 0"
  have "d \<in> set delims"
    using a by (auto simp: guessDelimiter_def Let_def delims_def split: if_splits list.splits)
  then show ?thesis unfolding delims_def by (rule findDelims_allowed)
qed

section \<open>Samples without a line terminator\<close>

lemma indexOf_absent: "c \<notin> set s \<Longrightarrow> indexOf (c # cs) s = None"
  by (induction s) auto

lemma terminatedLines_absent: "c \<notin> set s \<Longrightarrow> terminatedLines (c # cs) s = []"
  by (simp add: terminatedLines.simps indexOf_absent)

lemma remainingCandidates_single_lines:
  assumes "\<forall>nl \<in> set candidates. initialNrLines s nl = 1"
  shows "remainingCandidates s = []"
proof -
  have "nrLinesOf s = initialNrLines s"
    using assms by (simp add: nrLinesOf_def eliminateSubstrings_def candidates_def)
  then show ?thesis
    using assms by (simp add: remainingCandidates_def filter_empty_conv)
qed

lemma initialNrLines_absent:
  assumes "LF \<notin> set s" "CR \<notin> set s"
  shows "\<forall>nl \<in> set candidates. initialNrLines s nl = 1"
  using assms
  by (auto simp: candidates_def initialNrLines_def lineLengths_def terminatedLines_absent)

lemma getNewlineStr_none: "remainingCandidates s = [] \<Longrightarrow> getNewlineStr s = None"
  by (simp add: getNewlineStr_def Let_def)

text \<open>
  C2. For a sample with no line feed and no carriage return, \<open>sniff\<close> called without
  the option \<^verbatim>\<open>newlineStr\<close> ends with the error of line 631 and gives no result; and
  \<open>getNewlineStr\<close> finds no newline string whenever none of the four candidates gives
  more than one line, before or after the elimination of lines 58 to 67.
\<close>

theorem C2_no_newline_found:
  "((\<forall>nl \<in> set candidates. initialNrLines sample nl = 1) \<longrightarrow> getNewlineStr sample = None) \<and>
   (remainingCandidates sample = [] \<longrightarrow> getNewlineStr sample = None) \<and>
   (LF \<notin> set sample \<and> CR \<notin> set sample \<and> opt_newlineStr options = Undefined \<longrightarrow>
      getNewlineStr sample = None \<and> sniff delimiters sample options = Inl NoNewlineFound)"
proof (intro conjI impI)
  assume "\<forall>nl \<in> set candidates. initialNrLines sample nl = 1"
  then have "remainingCandidates sample = []" by (rule remainingCandidates_single_lines)
  then show "getNewlineStr sample = None" by (rule getNewlineStr_none)
next
  assume "remainingCandidates sample = []"
  then show "getNewlineStr sample = None" by (rule getNewlineStr_none)
next
  assume a: "LF \<notin> set sample \<and> CR \<notin> set sample \<and> opt_newlineStr options = Undefined"
  then have "\<forall>nl \<in> set candidates. initialNrLines sample nl = 1"
    using initialNrLines_absent by blast
  then have "remainingCandidates sample = []" by (rule remainingCandidates_single_lines)
  then show n: "getNewlineStr sample = None" by (rule getNewlineStr_none)
  show "sniff delimiters sample options = Inl NoNewlineFound"
    using a n by (simp add: sniff_def resolveNewline_def truthy_def)
qed

theorem C2_no_newline_found_witness:
  "initialNrLines ''abc'' [CR, LF] = 1 \<and> initialNrLines ''abc'' [LF, CR] = 1 \<and>
   initialNrLines ''abc'' [LF] = 1 \<and> initialNrLines ''abc'' [CR] = 1 \<and>
   remainingCandidates ''abc'' = [] \<and> LF \<notin> set ''abc'' \<and> CR \<notin> set ''abc'' \<and>
   opt_newlineStr noOptions = Undefined \<and> getNewlineStr ''abc'' = None \<and>
   sniff None ''abc'' noOptions = Inl NoNewlineFound"
proof -
  have a: "LF \<notin> set ''abc''" "CR \<notin> set ''abc''" by simp_all
  have b: "opt_newlineStr noOptions = Undefined" by (simp add: noOptions_def)
  have i: "\<forall>nl \<in> set candidates. initialNrLines ''abc'' nl = 1"
    using a by (rule initialNrLines_absent)
  have j: "initialNrLines ''abc'' [CR, LF] = 1" "initialNrLines ''abc'' [LF, CR] = 1"
    "initialNrLines ''abc'' [LF] = 1" "initialNrLines ''abc'' [CR] = 1"
    using i by (simp_all add: candidates_def)
  have c: "remainingCandidates ''abc'' = []" using i by (rule remainingCandidates_single_lines)
  show ?thesis
    using C2_no_newline_found [of "''abc''" noOptions None] a b c i j by simp
qed

section \<open>The detected newline string\<close>

text \<open>
  What \<open>getNewlineStr\<close> returns is one of the candidates with more than one line: it
  occurs in the sample.
\<close>

lemma eliminateSubstrings_value:
  "eliminateSubstrings m two x = m x \<or> eliminateSubstrings m two x = 1"
  by (simp add: eliminateSubstrings_def Let_def)

lemma nrLinesOf_value: "nrLinesOf s x = initialNrLines s x \<or> nrLinesOf s x = 1"
proof -
  define m1 where "m1 = eliminateSubstrings (initialNrLines s) [CR, LF]"
  have 1: "m1 x = initialNrLines s x \<or> m1 x = 1"
    unfolding m1_def by (rule eliminateSubstrings_value)
  have 2: "eliminateSubstrings m1 [LF, CR] x = m1 x \<or> eliminateSubstrings m1 [LF, CR] x = 1"
    by (rule eliminateSubstrings_value)
  have "nrLinesOf s = eliminateSubstrings m1 [LF, CR]"
    by (simp add: nrLinesOf_def m1_def)
  then show ?thesis using 1 2 by auto
qed

lemma remaining_occurs:
  assumes "nl \<in> set (remainingCandidates s)"
  shows "terminatedLines nl s \<noteq> []"
proof -
  have "1 < nrLinesOf s nl" using assms by (simp add: remainingCandidates_def)
  then have "1 < initialNrLines s nl" using nrLinesOf_value [of s nl] by auto
  then show ?thesis by (auto simp: initialNrLines_def lineLengths_def)
qed

lemma winner_in:
  "fst (foldl (\<lambda>(winner, winnerScore) newlineStr.
                 (let score = f newlineStr
                  in if flt score winnerScore then (Some newlineStr, score)
                     else (winner, winnerScore))) (w, sc) xs) = Some x
   \<Longrightarrow> w = Some x \<or> x \<in> set xs"
proof (induction xs arbitrary: w sc)
  case Nil
  then show ?case by simp
next
  case (Cons y ys)
  show ?case
  proof (cases "flt (f y) sc")
    case True
    then have "Some y = Some x \<or> x \<in> set ys"
      using Cons.prems Cons.IH [of "Some y" "f y"] by (simp add: Let_def)
    then show ?thesis by auto
  next
    case False
    then have "w = Some x \<or> x \<in> set ys"
      using Cons.prems Cons.IH [of w sc] by (simp add: Let_def)
    then show ?thesis by auto
  qed
qed

lemma choice_in:
  assumes "(case xs of [] \<Rightarrow> None | [only] \<Rightarrow> Some only
            | _ \<Rightarrow> (case fs of [] \<Rightarrow> F | [only] \<Rightarrow> Some only | _ \<Rightarrow> W)) = Some x"
    and "set fs \<subseteq> set xs"
    and "F = Some x \<Longrightarrow> x \<in> set xs"
    and "W = Some x \<Longrightarrow> x \<in> set fs"
  shows "x \<in> set xs"
  using assms by (auto split: list.splits)

lemma find_in: "find P xs = Some x \<Longrightarrow> x \<in> set xs"
  by (auto simp: find_Some_iff)

lemma getNewlineStr_remaining:
  assumes "getNewlineStr s = Some nl"
  shows "nl \<in> set (remainingCandidates s)"
proof (rule choice_in)
  show "(case remainingCandidates s of [] \<Rightarrow> None | [only] \<Rightarrow> Some only
         | _ \<Rightarrow> (case filter (\<lambda>newlineStr. 5 < nrLinesOf s newlineStr) (remainingCandidates s) of
                  [] \<Rightarrow> find (\<lambda>newlineStr. nrLinesOf s newlineStr =
                               foldl (\<lambda>m newlineStr. max m (nrLinesOf s newlineStr)) 0
                                 (remainingCandidates s)) (remainingCandidates s)
                | [only] \<Rightarrow> Some only
                | _ \<Rightarrow> fst (foldl (\<lambda>(winner, winnerScore) newlineStr.
                         (let score = lineScore (lineLengths s newlineStr)
                          in if flt score winnerScore then (Some newlineStr, score)
                             else (winner, winnerScore)))
                  (None, PosInf)
                  (filter (\<lambda>newlineStr. 5 < nrLinesOf s newlineStr) (remainingCandidates s))))) = Some nl"
    using assms unfolding getNewlineStr_def Let_def .
  show "set (filter (\<lambda>newlineStr. 5 < nrLinesOf s newlineStr) (remainingCandidates s))
        \<subseteq> set (remainingCandidates s)"
    by auto
  show "nl \<in> set (remainingCandidates s)"
    if "find (\<lambda>newlineStr. nrLinesOf s newlineStr =
                               foldl (\<lambda>m newlineStr. max m (nrLinesOf s newlineStr)) 0
                                 (remainingCandidates s)) (remainingCandidates s) = Some nl"
    using that by (rule find_in)
  show "nl \<in> set (filter (\<lambda>newlineStr. 5 < nrLinesOf s newlineStr) (remainingCandidates s))"
    if "fst (foldl (\<lambda>(winner, winnerScore) newlineStr.
                         (let score = lineScore (lineLengths s newlineStr)
                          in if flt score winnerScore then (Some newlineStr, score)
                             else (winner, winnerScore)))
                  (None, PosInf)
                  (filter (\<lambda>newlineStr. 5 < nrLinesOf s newlineStr) (remainingCandidates s))) = Some nl"
    using winner_in [OF that] by simp
qed

lemma getNewlineStr_occurs: "getNewlineStr s = Some nl \<Longrightarrow> terminatedLines nl s \<noteq> []"
  by (rule remaining_occurs) (rule getNewlineStr_remaining)

lemma candidates_plain:
  assumes "nl \<in> set candidates"
    "quotechar = None \<or> quotechar = Some [CHR 0x27] \<or> quotechar = Some [CHR 0x22]"
  shows "plainNewline nl quotechar"
  using assms by (auto simp: candidates_def plainNewline_def)

lemma getNewlineStr_candidate: "getNewlineStr s = Some nl \<Longrightarrow> nl \<in> set candidates"
  using getNewlineStr_remaining [of s nl] by (simp add: remainingCandidates_def)

section \<open>What the result of the sniffer holds\<close>

lemma sniff_Inr:
  assumes "sniff ds s opts = Inr r"
  obtains nl where "resolveNewline s opts = Some nl" "nl \<noteq> []" "r = sniffWith ds s opts nl"
  using assms by (auto simp: sniff_def split: option.splits if_splits)

lemma hd_take_1: "xs \<noteq> [] \<Longrightarrow> hd (take 1 xs) = hd xs"
  by (cases xs) auto

lemma sniffWith_delimiter_allowed:
  assumes "truthy (opt_delimiter opts) = None"
  shows "delimiter (sniffWith ds s opts nl) = None \<or>
     (\<exists>d. allowed ds d \<and> delimiter (sniffWith ds s opts nl) = Some [d])"
proof -
  define qd where "qd = guessQuoteAndDelimiter s nl ds"
  define trusted where "trusted = (opt_quoteChar opts = Undefined \<and> delim qd \<noteq> None \<and>
                            (quote qd = Some (CHR 0x27) \<or> quote qd = Some (CHR 0x22)))"
  define guessed where "guessed = (case delim qd of None \<Rightarrow> [] | Some d \<Rightarrow> [d])"
  have d: "delimiter (sniffWith ds s opts nl) =
      (case truthy (if trusted \<and> opt_delimiter opts = Undefined then Value guessed
                    else opt_delimiter opts) of
         Some d \<Rightarrow> Some d
       | None \<Rightarrow> map_option (\<lambda>d. [d]) (guessDelimiter s nl ds))"
    by (auto simp: sniffWith_def Let_def qd_def trusted_def guessed_def)
  show ?thesis
  proof (cases "trusted \<and> opt_delimiter opts = Undefined")
    case True
    then obtain c where c: "delim qd = Some c" by (auto simp: trusted_def)
    then have "allowed ds c" unfolding qd_def by (rule guessQuoteAndDelimiter_allowed)
    moreover have "delimiter (sniffWith ds s opts nl) = Some [c]"
      using d True c by (simp add: guessed_def truthy_def)
    ultimately show ?thesis by blast
  next
    case False
    then have "delimiter (sniffWith ds s opts nl) = map_option (\<lambda>d. [d]) (guessDelimiter s nl ds)"
      using d assms(1) by auto
    then show ?thesis
      using guessDelimiter_allowed [of s nl ds] by (cases "guessDelimiter s nl ds") auto
  qed
qed

lemma sniffWith_supplied:
  assumes "opt_delimiter opts = Value d" "d \<noteq> []"
    "opt_quoteChar opts \<noteq> Undefined" "opt_hasHeader opts = Value b"
  shows "sniffWith ds s opts nl =
     (let parsed = parseSample s nl (Some d) (toOption (opt_quoteChar opts)) in
      \<lparr>warnings = [], newlineStr = nl, delimiter = Some d,
           quoteChar = toOption (opt_quoteChar opts), res_hasHeader = b,
           res_types = (if b then tail (getTypes parsed) else all (getTypes parsed)),
           labels = (if b \<and> parsed \<noteq> [] then Some (hd parsed) else None),
           records = (if b \<and> parsed \<noteq> [] then tl parsed else parsed)\<rparr>)"
  using assms by (simp add: sniffWith_def Let_def truthy_def hd_take_1)

lemma sniffWith_labels_records:
  "labels (sniffWith ds s opts nl) =
     (let r = sniffWith ds s opts nl; parsed = parseSample s (newlineStr r) (delimiter r) (quoteChar r)
      in if res_hasHeader r \<and> parsed \<noteq> [] then Some (hd parsed) else None)"
  "records (sniffWith ds s opts nl) =
     (let r = sniffWith ds s opts nl; parsed = parseSample s (newlineStr r) (delimiter r) (quoteChar r)
      in if res_hasHeader r \<and> parsed \<noteq> [] then tl parsed else parsed)"
  by (simp_all add: sniffWith_def Let_def hd_take_1)

lemma sniffWith_newlineStr: "newlineStr (sniffWith ds s opts nl) = nl"
  by (simp add: sniffWith_def Let_def)

lemma sniffWith_quote_supplied:
  assumes "opt_quoteChar opts \<noteq> Undefined" "opt_hasHeader opts = Value b"
  shows "sniffWith ds s opts nl =
     (let chosen = (case truthy (opt_delimiter opts) of
                      Some d \<Rightarrow> Some d
                    | None \<Rightarrow> map_option (\<lambda>d. [d]) (guessDelimiter s nl ds));
          parsed = parseSample s nl chosen (toOption (opt_quoteChar opts))
      in \<lparr>warnings = [], newlineStr = nl, delimiter = chosen,
           quoteChar = toOption (opt_quoteChar opts), res_hasHeader = b,
           res_types = (if b then tail (getTypes parsed) else all (getTypes parsed)),
           labels = (if b \<and> parsed \<noteq> [] then Some (hd parsed) else None),
           records = (if b \<and> parsed \<noteq> [] then tl parsed else parsed)\<rparr>)"
  using assms by (simp add: sniffWith_def Let_def hd_take_1)


lemma sniffWith_quoteChar_detected:
  assumes "opt_quoteChar opts = Undefined"
  shows "quoteChar (sniffWith ds s opts nl) = None \<or>
         quoteChar (sniffWith ds s opts nl) = Some [CHR 0x27] \<or>
         quoteChar (sniffWith ds s opts nl) = Some [CHR 0x22]"
  using assms by (auto simp: sniffWith_def Let_def)

section \<open>The header vote\<close>

lemma lengthsTail_step:
  assumes "length lt = n" "i < n"
  shows "length (foldl (\<lambda>lengthsTail cols.
                   if length cols \<noteq> n then lengthsTail
                   else map2 (\<lambda>lengths col. lengths @ [length col]) lengthsTail cols) lt rows) = n \<and>
         foldl (\<lambda>lengthsTail cols.
                   if length cols \<noteq> n then lengthsTail
                   else map2 (\<lambda>lengths col. lengths @ [length col]) lengthsTail cols) lt rows ! i =
         lt ! i @ map (\<lambda>row. length (row ! i)) (filter (\<lambda>row. length row = n) rows)"
  using assms
proof (induction rows arbitrary: lt)
  case Nil
  then show ?case by simp
next
  case (Cons row rows)
  show ?case
  proof (cases "length row = n")
    case False
    then show ?thesis using Cons by simp
  next
    case True
    define lt' where "lt' = map2 (\<lambda>lengths col. lengths @ [length col]) lt row"
    have l: "length lt' = n" using True Cons.prems by (simp add: lt'_def)
    have i: "lt' ! i = lt ! i @ [length (row ! i)]"
      using True Cons.prems by (simp add: lt'_def)
    show ?thesis
      using Cons.IH [OF l Cons.prems(2)] True i by (simp add: lt'_def)
  qed
qed

lemma lengthsTailOf_nth:
  assumes "i < length (headerRow parsedSample)"
  shows "lengthsTailOf parsedSample ! i = tailFieldLengths parsedSample i"
proof (cases parsedSample)
  case Nil
  then show ?thesis using assms by (simp add: headerRow_def)
next
  case (Cons cols rows)
  have "i < length cols" using assms Cons by (simp add: headerRow_def)
  then show ?thesis
    using lengthsTail_step [of "map (\<lambda>col. []) cols" "length cols" i rows]
    by (simp add: Cons lengthsTailOf_def tailFieldLengths_def headerRow_def)
qed

lemma foldl_votes: "foldl (\<lambda>vote i. vote + f i) (v::int) xs = v + sum_list (map f xs)"
  by (induction xs arbitrary: v) (simp_all add: add.assoc)

lemma hasHeader_vote:
  "hasHeader parsedSample =
     \<lparr>hd_types = (if 0 < totalVote parsedSample then tail (getTypes parsedSample)
                  else all (getTypes parsedSample)),
      hd_hasHeader = (0 < totalVote parsedSample)\<rparr>"
proof -
  define firstValues where "firstValues = headerRow parsedSample"
  define body where "body = (\<lambda>(vote::int) i.
                   (let col = firstValues ! i in
                    if first (getTypes parsedSample) ! i \<noteq> tail (getTypes parsedSample) ! i \<and> first (getTypes parsedSample) ! i = StringT then vote + 2
                    else
                      (let sum = foldl (\<lambda>sum d. fadd sum (ofNat d)) (Num 0) (lengthsTailOf parsedSample ! i);
                           avg = fdiv sum (ofNat (length (lengthsTailOf parsedSample ! i)));
                           diffSqSum = foldl (\<lambda>diffSqSum d.
                                          fadd diffSqSum (fmul (fsub avg (ofNat d)) (fsub avg (ofNat d))))
                                        (Num 0) (lengthsTailOf parsedSample ! i);
                           sd = fdiv diffSqSum (ofNat (length (lengthsTailOf parsedSample ! i)));
                           tolerance = fmul (Num 2) sd
                       in if fgt (fabs (fsub (ofNat (length col)) avg)) tolerance
                          then vote + 1 else vote - 1)))"
  have step: "body vote i = vote + columnVote parsedSample i" if "i \<in> set [0..<length firstValues]" for vote i
  proof -
    have "i < length (headerRow parsedSample)" using that by (simp add: firstValues_def)
    then have "lengthsTailOf parsedSample ! i = tailFieldLengths parsedSample i"
      by (rule lengthsTailOf_nth)
    then show ?thesis
      by (simp add: body_def columnVote_def Let_def mean_def variance_def firstValues_def)
  qed
  have "foldl body 0 [0..<length firstValues] =
        foldl (\<lambda>vote i. vote + columnVote parsedSample i) 0 [0..<length firstValues]"
    by (rule foldl_cong) (use step in auto)
  then have vote: "foldl body 0 [0..<length firstValues] = totalVote parsedSample"
    by (simp add: foldl_votes totalVote_def firstValues_def)
  have "hasHeader parsedSample =
     (let vote = foldl body 0 [0..<length firstValues]; hasHeader = (0 < vote)
      in \<lparr>hd_types = (if hasHeader then tail (getTypes parsedSample) else all (getTypes parsedSample)),
          hd_hasHeader = hasHeader\<rparr>)"
    unfolding hasHeader_def body_def firstValues_def headerRow_def Let_def by (rule refl)
  then show ?thesis
    by (simp add: vote Let_def)
qed

section \<open>Fields of a parsed row\<close>



text \<open>
  With the newline string \<^verbatim>\<open>"\r\n"\<close> the loop of line 426 goes on at the line feed: the
  second row of \<^verbatim>\<open>"a\r\nb\r\n"\<close> is read as the field \<^verbatim>\<open>"\nb"\<close>.
\<close>

lemma parseSample_two_character_newline:
  "parseSample (''a'' @ [CR, LF] @ ''b'' @ [CR, LF]) [CR, LF] (Some '','') (Some [CHR 0x22]) =
     [[''a''], [LF # ''b'']]"
  by (simp add: parseSample_def)

section \<open>The number of parsed rows\<close>

text \<open>
  Without a quote character the rows are the pieces of \<^verbatim>\<open>sample.split(newlineStr)\<close> but the
  last, and a sample in which \<open>newlineStr\<close> does not occur is one row (lines 413 to 416).
  With a quote character and a newline string that is \<open>plainNewline\<close>, the loop of line 426
  ends as many rows as the scan that goes on behind the whole newline string.
\<close>

lemma split_length:
  "nl \<noteq> [] \<Longrightarrow> length (split nl s) = Suc (length (terminatedLines nl s))"
proof (induction nl s rule: terminatedLines.induct)
  case (1 nl s)
  show ?case
  proof (cases "indexOf nl s")
    case None
    then show ?thesis
      using "1.prems" by (simp add: split.simps [of nl s] terminatedLines.simps [of nl s])
  next
    case (Some k)
    then show ?thesis
      using "1.prems" "1.IH" [of k]
      by (simp add: split.simps [of nl s] terminatedLines.simps [of nl s])
  qed
qed

lemma parseSample_unquoted_length:
  assumes "nl \<noteq> []" "quotechar = None \<or> quotechar = Some []"
  shows "length (parseSample s nl d quotechar) =
         (if terminatedLines nl s = [] then 1 else length (terminatedLines nl s))"
  using assms split_length [of nl s]
  by (auto simp: parseSample_def Let_def)

lemma parseQuoted_rows:
  assumes "plainNewline nl (Some q)"
    and "skip = 0 \<or> (skip = 1 \<and> \<not> ins \<and> \<not> esc \<and> length nl = 2 \<and> (s = [] \<or> hd s = nl ! 1))"
  shows "length (parseQuoted nl d q ins esc cur vals res s) =
         length res + length (rowShapes nl d q ins esc seen fieldEmpty skip s)"
  using assms(2)
proof (induction s arbitrary: ins esc cur vals res seen fieldEmpty skip)
  case Nil
  show ?case by simp
next
  case (Cons c cs)
  show ?case
  proof (cases "skip = 0")
    case True
    show ?thesis
    proof (cases "\<not> esc \<and> c \<noteq> CHR 0x5C \<and> [c] \<noteq> q \<and> \<not> ins \<and> prefix nl (c # cs)")
      case False
      then show ?thesis
        using True by (auto simp: Cons.IH Let_def)
    next
      case newline: True
      have next_skip: "length nl - 1 = 0 \<or>
          (length nl - 1 = 1 \<and> length nl = 2 \<and> (cs = [] \<or> hd cs = nl ! 1))"
        using assms(1) newline by (cases cs) (auto simp: plainNewline_def split: list.splits)
      have "length (parseQuoted nl d q False False [] [] (res @ [row]) cs) =
            length (res @ [row]) + length (rowShapes nl d q False False 0 True (length nl - 1) cs)"
        for row
        by (rule Cons.IH) (use next_skip in auto)
      then show ?thesis
        using True newline by (simp add: Let_def)
    qed
  next
    case False
    then have one: "skip = 1" "\<not> ins" "\<not> esc" "length nl = 2" "c = nl ! 1"
      using Cons.prems by auto
    then obtain a where nl: "nl = [a, c]"
      by (cases nl; cases "tl nl") auto
    have p: "a \<noteq> c" "c \<noteq> CHR 0x5C" "[c] \<noteq> q"
      using assms(1) nl by (auto simp: plainNewline_def)
    have ih: "length (parseQuoted nl d q False False cur' vals' res cs) =
              length res + length (rowShapes nl d q False False seen fieldEmpty 0 cs)"
      for cur' vals'
      by (rule Cons.IH) simp
    have l: "parseQuoted nl d q ins esc cur vals res (c # cs) =
          (if Some [c] = d then parseQuoted nl d q False False [] (vals @ [cur]) res cs
           else parseQuoted nl d q False False (cur @ [c]) vals res cs)"
      using one(2,3) p by (simp add: nl)
    have r: "rowShapes nl d q ins esc seen fieldEmpty skip (c # cs) =
          rowShapes nl d q False False seen fieldEmpty 0 cs"
      using one(1,2,3) by simp
    show ?thesis
      unfolding l r by (simp add: ih)
  qed
qed

lemma parseSample_quoted_length:
  assumes "plainNewline nl (Some q)" "q \<noteq> []"
  shows "length (parseSample s nl d (Some q)) = length (rowsOf s nl d q)"
  using parseQuoted_rows [OF assms(1), of 0 False False s d "[]" "[]" "[]" 0 True] assms(2)
  by (simp add: parseSample_def rowsOf_def)

text \<open>
  A newline string that overlaps itself is not \<open>plainNewline\<close>: after the terminator at
  the first line feed of \<^verbatim>\<open>"a\n\n\nb\n\n"\<close> the loop of line 426 goes on at the second one
  and finds \<^verbatim>\<open>"\n\n"\<close> there again, so it ends three rows where the sample has two.
\<close>

lemma parseSample_overlapping_newline:
  "parseSample (''a'' @ [LF, LF, LF] @ ''b'' @ [LF, LF]) [LF, LF] (Some '','') (Some [CHR 0x22]) =
     [[''a''], [], [LF # ''b'']] \<and>
   fullyTerminatedRows (''a'' @ [LF, LF, LF] @ ''b'' @ [LF, LF]) [LF, LF] (Some '','') (Some [CHR 0x22]) = 2"
  by (simp add: parseSample_def fullyTerminatedRows_def quoteInUse_def rowsOf_def)

section \<open>The sniffer on the concrete samples\<close>

lemma concat_map_if: "concat (map (\<lambda>i. if P i then [g i] else []) xs) = map g (filter P xs)"
  by (induction xs) auto

lemma delimsAt_passing:
  "delimsAt modes n ds c =
     map char_of (filter (\<lambda>i. case modes ! i of None \<Rightarrow> False
                              | Some (maxFreq, mode) \<Rightarrow> fge (fdiv (Num (of_int mode)) (ofNat n)) c \<and> allowed ds (char_of i))
                   (passing modes))"
proof -
  have "delimsAt modes n ds c =
      concat (map (\<lambda>i. if (case modes ! i of None \<Rightarrow> False | Some (maxFreq, mode) \<Rightarrow> maxFreq \<noteq> 0 \<and> 0 < mode) \<and>
                          (case modes ! i of None \<Rightarrow> False
                              | Some (maxFreq, mode) \<Rightarrow> fge (fdiv (Num (of_int mode)) (ofNat n)) c \<and> allowed ds (char_of i))
                        then [char_of i] else []) [0..<length modes])"
    unfolding delimsAt_def
    by (intro arg_cong [where f = concat] map_cong refl) (auto simp: Let_def split: option.splits)
  then show ?thesis
    by (simp add: concat_map_if passing_def)
qed

lemma threshold_below_one: "fgt (Num 1) consistencyThreshold"
proof -
  obtain t where t: "consistencyThreshold = Num t" "t \<le> 4 / 5 + 1 / 2 ^ 53"
    using toDouble_small [of "4 / 5"] unfolding consistencyThreshold_def by auto
  have "t < 1" using t(2) by simp
  then show ?thesis by (simp add: fgt_def t(1))
qed

lemma findDelims_first_round:
  "delimsAt modes n ds (Num 1) \<noteq> [] \<Longrightarrow> findDelims modes n ds 0 = delimsAt modes n ds (Num 1)"
  by (subst findDelims.simps) (simp add: threshold_below_one Let_def)

lemma char_of_44: "char_of (44::nat) = CHR '',''"
  by code_simp

lemma char_of_32: "char_of (32::nat) = CHR '' ''"
  by code_simp

lemma lines1: "terminatedLines [LF] sample1 = [''a,b,c'', ''1,2,3'', ''4,5,6'']"
  by code_simp

lemma passing1: "passing (modesOf [asciiTable ''a,b,c'', asciiTable ''1,2,3'', asciiTable ''4,5,6'']) = [44]"
  by code_simp

lemma mode1: "modesOf [asciiTable ''a,b,c'', asciiTable ''1,2,3'', asciiTable ''4,5,6''] ! 44 = Some (2, 3)"
  by code_simp

lemma delims1:
  "allowed ds (CHR '','') \<Longrightarrow>
   delimsAt (modesOf [asciiTable ''a,b,c'', asciiTable ''1,2,3'', asciiTable ''4,5,6'']) (Suc (Suc (Suc 0))) ds (Num 1) = '',''"
  by (simp add: delimsAt_passing passing1 mode1 ofNat_def toDouble_1 fge_def char_of_44)

lemma guessDelimiter1: "allowed ds (CHR '','') \<Longrightarrow> guessDelimiter sample1 [LF] ds = Some (CHR '','')"
  by (simp add: guessDelimiter_def lines1 Let_def findDelims_first_round delims1)

lemma lines2: "terminatedLines [LF] sample2 = [''a, b'', ''c, d'']"
  by code_simp

lemma passing2: "passing (modesOf [asciiTable ''a, b'', asciiTable ''c, d'']) = [32, 44]"
  by code_simp

lemma mode2:
  "modesOf [asciiTable ''a, b'', asciiTable ''c, d''] ! 32 = Some (1, 2)"
  "modesOf [asciiTable ''a, b'', asciiTable ''c, d''] ! 44 = Some (1, 2)"
  by code_simp+

lemma delims2:
  "delimsAt (modesOf [asciiTable ''a, b'', asciiTable ''c, d'']) (Suc (Suc 0)) None (Num 1) = '' ,''"
  by (simp add: delimsAt_passing passing2 mode2 ofNat_def toDouble_1 fge_def char_of_44 char_of_32 allowed_def)

lemma findDelims2:
  "findDelims (modesOf [asciiTable ''a, b'', asciiTable ''c, d'']) (Suc (Suc 0)) None 0 = '' ,''"
  by (simp add: findDelims_first_round delims2)

lemma guessDelimiter2: "guessDelimiter sample2 [LF] None = Some (CHR '' '')"
  by (simp add: guessDelimiter_def lines2 Let_def findDelims2)

lemma newline1: "getNewlineStr sample1 = Some [LF]"
  by code_simp

lemma matches1: "allMatches sample1 [LF] = []"
  by code_simp

lemma quoteAndDelim1: "guessQuoteAndDelimiter sample1 [LF] ds = \<lparr>delim = None, quote = None\<rparr>"
  by (simp add: guessQuoteAndDelimiter_def matches1)

lemma matches3: "allMatches sample3 [LF] = [\<lparr>delim = Some (CHR '',''), quote = Some (CHR 0x27)\<rparr>]"
  by code_simp

lemma parse1: "parseSample sample1 [LF] (Some '','') None = table1"
  by code_simp

lemmas toNumber_eval = toNumber_def trim_def isWhiteSpace_def whiteSpaceChars_def
  nonDecimalLiteral_def integerLiteral_def strUnsignedDecimalLiteral_def isDigitOf_def
  digitValue_def digitsValue_def exponentPart_def pow10_def Let_def

lemma toNumber_letters: "toNumber ''a'' = NaN" "toNumber ''b'' = NaN" "toNumber ''c'' = NaN"
  by (simp_all add: toNumber_eval)

lemma toNumber_digits:
  "toNumber ''1'' = Num 1" "toNumber ''2'' = Num 2" "toNumber ''3'' = Num 3"
  "toNumber ''4'' = Num 4" "toNumber ''5'' = Num 5" "toNumber ''6'' = Num 6"
  by (simp_all add: toNumber_eval toDouble_1 toDouble_numeral)

lemma types1:
  "getTypes table1 = \<lparr>first = [StringT, StringT, StringT], tail = [IntegerT, IntegerT, IntegerT],
                       all = [StringT, StringT, StringT]\<rparr>"
  by (simp add: getTypes_def table1_def getAccumulatedType_def toNumber_letters toNumber_digits
      isFinite_def fmod1_def)

lemma header1: "hasHeader table1 = \<lparr>hd_types = [IntegerT, IntegerT, IntegerT], hd_hasHeader = True\<rparr>"
proof -
  have "columnVote table1 0 = 2" "columnVote table1 1 = 2" "columnVote table1 2 = 2"
    by (simp_all add: columnVote_def types1)
  moreover have "[0..<length (headerRow table1)] = [0, 1, 2]"
    by (simp add: headerRow_def table1_def upt_rec)
  ultimately have "totalVote table1 = 6"
    by (simp add: totalVote_def)
  then show ?thesis
    by (simp add: hasHeader_vote types1)
qed

lemma sniff1:
  "allowed ds (CHR '','') \<Longrightarrow>
   sniff ds sample1 noOptions =
     Inr \<lparr>warnings = [], newlineStr = [LF], delimiter = Some '','', quoteChar = None,
          res_hasHeader = True, res_types = [IntegerT, IntegerT, IntegerT],
          labels = Some [''a'', ''b'', ''c''],
          records = [[''1'', ''2'', ''3''], [''4'', ''5'', ''6'']]\<rparr>"
  by (simp add: sniff_def resolveNewline_def noOptions_def truthy_def newline1 sniffWith_def
      Let_def quoteAndDelim1 guessDelimiter1 parse1 header1) (simp add: table1_def)

lemma sniff9: "sniff None sample1 options9 = Inr result9"
  by (simp add: sniff_def resolveNewline_def options9_def result9_def truthy_def toOption_def
      sniffWith_def Let_def guessDelimiter1 allowed_def parse1 types1)

lemma parse5: "parseSample ''abc'' [LF] (Some '','') (Some [CHR 0x22]) = []"
  by (simp add: parseSample_def)

lemma sniff5: "sniff None ''abc'' options5 = Inr result5"
proof -
  have "sniffWith None ''abc'' options5 [LF] = result5"
    by (subst sniffWith_supplied [of options5 "'',''" True])
      (simp_all add: options5_def result5_def toOption_def parse5 getTypes_def)
  then show ?thesis
    by (simp add: sniff_def resolveNewline_def truthy_def options5_def)
qed

lemma parse4: "parseSample sample4 [LF] (Some '','') (Some [CHR 0x22]) = [[''a'', ''b''], [''1'', ''2'']]"
  by code_simp

lemma sniff4: "sniff None sample4 options5 = Inr result4"
proof -
  have "sniffWith None sample4 options5 [LF] = result4"
    by (subst sniffWith_supplied [of options5 "'',''" True])
      (simp_all add: options5_def result4_def toOption_def parse4 getTypes_def
        getAccumulatedType_def toNumber_digits isFinite_def fmod1_def)
  then show ?thesis
    by (simp add: sniff_def resolveNewline_def truthy_def options5_def)
qed

lemma parse6: "parseSample ''abc'' [LF] (Some '','') None = [[''abc'']]"
  by code_simp

lemma sniff6: "sniff None ''abc'' options6 = Inr result6"
proof -
  have "sniffWith None ''abc'' options6 [LF] = result6"
    by (subst sniffWith_supplied [of options6 "'',''" False])
      (simp_all add: options6_def result6_def toOption_def parse6 getTypes_def
        getAccumulatedType_def toNumber_eval isFinite_def)
  then show ?thesis
    by (simp add: sniff_def resolveNewline_def truthy_def options6_def)
qed

lemma terminated1: "fullyTerminatedRows sample1 [LF] (Some '','') None = 3"
  by code_simp

lemma terminated4: "fullyTerminatedRows sample4 [LF] (Some '','') (Some [CHR 0x22]) = 2"
  by code_simp

lemma terminated6: "fullyTerminatedRows ''abc'' [LF] (Some '','') None = 0"
  by code_simp

lemma quoteAndDelim3:
  "guessQuoteAndDelimiter sample3 [LF] (Some '',;'') =
     \<lparr>delim = Some (CHR '',''), quote = Some (CHR 0x27)\<rparr>"
  by code_simp

section \<open>The properties of the specification\<close>

text \<open>
  C1. For the sample \<^verbatim>\<open>"a,b,c\n1,2,3\n4,5,6\n"\<close>, \<open>sniff\<close> without options returns the
  newline string \<^verbatim>\<open>"\n"\<close>, the delimiter \<^verbatim>\<open>","\<close>, no quote character, a header, the
  types integer, integer, integer, the labels a, b, c and the records 1, 2, 3 and 4, 5, 6
  (and no warning).
\<close>

theorem C1_concrete_scenario:
  "sniff None sample1 noOptions =
     Inr \<lparr>warnings = [], newlineStr = [LF], delimiter = Some '','', quoteChar = None,
          res_hasHeader = True, res_types = [IntegerT, IntegerT, IntegerT],
          labels = Some [''a'', ''b'', ''c''],
          records = [[''1'', ''2'', ''3''], [''4'', ''5'', ''6'']]\<rparr>"
  by (rule sniff1) (simp add: allowed_def)






text \<open>
  C5, as the specification states it: in every result the labels are row 0 of the parsed
  table when \<^verbatim>\<open>hasHeader\<close> is true, the records are the table without row 0 then, and the
  number of records, plus one when \<^verbatim>\<open>hasHeader\<close> is true, is the number of fully-terminated
  rows of the sample. Two calls on the sample \<^verbatim>\<open>abc\<close>, in which no row is terminated, show
  otherwise. With \<open>options5\<close> the table is empty, \<^verbatim>\<open>hasHeader\<close> is true as supplied, and
  there are no labels and no records: lines 661 and 663 take row 0 only from a table that
  is not empty. With \<open>options6\<close>, without a quote character, the table and the records are
  the one row \<^verbatim>\<open>abc\<close>: line 414 drops the last piece of the split only when there is
  another one.
\<close>

theorem C5_empty_table_counterexample:
  "sniff None ''abc'' options5 = Inr result5 \<and>
   parseSample ''abc'' (newlineStr result5) (delimiter result5) (quoteChar result5) = [] \<and>
   fullyTerminatedRows ''abc'' (newlineStr result5) (delimiter result5) (quoteChar result5) = 0 \<and>
   res_hasHeader result5 \<and> labels result5 = None \<and> records result5 = [] \<and>
   \<not> headerRoundTrip result5 [] 0 \<and>
   sniff None ''abc'' options6 = Inr result6 \<and>
   parseSample ''abc'' (newlineStr result6) (delimiter result6) (quoteChar result6) = [[''abc'']] \<and>
   fullyTerminatedRows ''abc'' (newlineStr result6) (delimiter result6) (quoteChar result6) = 0 \<and>
   \<not> res_hasHeader result6 \<and> records result6 = [[''abc'']] \<and>
   \<not> headerRoundTrip result6 [[''abc'']] 0"
  using sniff5 parse5 sniff6 parse6
  by (simp add: result5_def result6_def headerRoundTrip_def fullyTerminatedRows_def
      quoteInUse_def rowsOf_def terminatedLines.simps [of "[LF]" "''abc''"])

text \<open>
  C5, amended. In every result the labels are row 0 of the parsed table when \<^verbatim>\<open>hasHeader\<close>
  is true and the table is not empty, and \<^verbatim>\<open>null\<close> otherwise; the records are the table
  without row 0 in the first case and the whole table otherwise. The number of records,
  plus one in the first case, is the number of fully-terminated rows of the sample:
  without a quote character, unless \<open>newlineStr\<close> does not occur in the sample, which is
  then kept as one row; with a quote character, for a newline string that is
  \<open>plainNewline\<close>; and without any exception when the options leave the newline string
  and the quote character to the sniffer.
\<close>

theorem C5_labels_and_records:
  "sniff ds sample options = Inr r \<Longrightarrow>
   (let parsed = parseSample sample (newlineStr r) (delimiter r) (quoteChar r);
        removed = (res_hasHeader r \<and> parsed \<noteq> []);
        kept = length (records r) + (if removed then 1 else 0);
        terminated = fullyTerminatedRows sample (newlineStr r) (delimiter r) (quoteChar r)
    in labels r = (if removed then Some (hd parsed) else None) \<and>
       records r = (if removed then tl parsed else parsed) \<and>
       (quoteInUse (quoteChar r) = None \<longrightarrow>
          kept = (if terminated = 0 then 1 else terminated)) \<and>
       (quoteInUse (quoteChar r) \<noteq> None \<and> plainNewline (newlineStr r) (quoteChar r) \<longrightarrow>
          kept = terminated) \<and>
       (truthy (opt_newlineStr options) = None \<and> opt_quoteChar options = Undefined \<longrightarrow>
          kept = terminated))"
proof -
  assume "sniff ds sample options = Inr r"
  then obtain nl where nl: "resolveNewline sample options = Some nl" "nl \<noteq> []"
    and r: "r = sniffWith ds sample options nl"
    by (rule sniff_Inr)
  have n: "newlineStr r = nl"
    by (simp add: r sniffWith_newlineStr)
  define parsed where "parsed = parseSample sample (newlineStr r) (delimiter r) (quoteChar r)"
  define removed where "removed = (res_hasHeader r \<and> parsed \<noteq> [])"
  define kept where "kept = length (records r) + (if removed then 1 else 0)"
  define terminated where
    "terminated = fullyTerminatedRows sample (newlineStr r) (delimiter r) (quoteChar r)"
  have l: "labels r = (if removed then Some (hd parsed) else None)"
    unfolding r parsed_def removed_def by (subst sniffWith_labels_records(1)) (simp add: Let_def)
  have c: "records r = (if removed then tl parsed else parsed)"
    unfolding r parsed_def removed_def by (subst sniffWith_labels_records(2)) (simp add: Let_def)
  have k: "kept = length parsed"
    unfolding kept_def by (cases parsed) (simp_all add: c removed_def)
  have unquoted: "kept = (if terminated = 0 then 1 else terminated)"
    if "quoteInUse (quoteChar r) = None"
  proof -
    have "quoteChar r = None \<or> quoteChar r = Some []"
      using that by (auto simp: quoteInUse_def split: option.splits if_splits)
    then have "length parsed =
        (if terminatedLines nl sample = [] then 1 else length (terminatedLines nl sample))"
      unfolding parsed_def n using nl(2) by (rule parseSample_unquoted_length [rotated])
    then show ?thesis
      using that by (simp add: k terminated_def fullyTerminatedRows_def n)
  qed
  have quoted: "kept = terminated"
    if u: "quoteInUse (quoteChar r) \<noteq> None" "plainNewline (newlineStr r) (quoteChar r)"
  proof -
    obtain q where q: "quoteChar r = Some q" "q \<noteq> []"
      using u(1) by (auto simp: quoteInUse_def split: option.splits if_splits)
    have "length (parseSample sample nl (delimiter r) (Some q)) =
          length (rowsOf sample nl (delimiter r) q)"
      using u(2) q(2) unfolding n q(1) by (rule parseSample_quoted_length)
    then show ?thesis
      using q by (simp add: k parsed_def terminated_def fullyTerminatedRows_def quoteInUse_def n)
  qed
  have detected: "kept = terminated"
    if "truthy (opt_newlineStr options) = None" "opt_quoteChar options = Undefined"
  proof -
    have g: "getNewlineStr sample = Some nl"
      using nl(1) that(1) by (simp add: resolveNewline_def)
    have "quoteChar r = None \<or> quoteChar r = Some [CHR 0x27] \<or> quoteChar r = Some [CHR 0x22]"
      unfolding r using that(2) by (rule sniffWith_quoteChar_detected)
    then have p: "plainNewline (newlineStr r) (quoteChar r)"
      unfolding n using getNewlineStr_candidate [OF g] by (intro candidates_plain)
    show ?thesis
    proof (cases "quoteInUse (quoteChar r)")
      case None
      have "terminatedLines nl sample \<noteq> []"
        using g by (rule getNewlineStr_occurs)
      then have "terminated \<noteq> 0"
        using None by (simp add: terminated_def fullyTerminatedRows_def n)
      then show ?thesis
        using unquoted [OF None] by simp
    next
      case (Some q)
      then show ?thesis
        using quoted p by simp
    qed
  qed
  show ?thesis
    using l c unquoted quoted detected
    unfolding Let_def parsed_def [symmetric] removed_def [symmetric] kept_def [symmetric]
      terminated_def [symmetric]
    by blast
qed


theorem C5_labels_and_records_witness:
  "sniff None sample1 noOptions =
     Inr \<lparr>warnings = [], newlineStr = [LF], delimiter = Some '','', quoteChar = None,
          res_hasHeader = True, res_types = [IntegerT, IntegerT, IntegerT],
          labels = Some [''a'', ''b'', ''c''],
          records = [[''1'', ''2'', ''3''], [''4'', ''5'', ''6'']]\<rparr> \<and>
   parseSample sample1 [LF] (Some '','') None = table1 \<and>
   Some [''a'', ''b'', ''c''] = Some (hd table1) \<and>
   [[''1'', ''2'', ''3''], [''4'', ''5'', ''6'']] = tl table1 \<and>
   truthy (opt_newlineStr noOptions) = None \<and> opt_quoteChar noOptions = Undefined \<and>
   length [[''1'', ''2'', ''3''], [''4'', ''5'', ''6'']] + 1 =
     fullyTerminatedRows sample1 [LF] (Some '','') None \<and>
   fullyTerminatedRows sample1 [LF] (Some '','') None = 3 \<and>
   sniff None sample4 options5 = Inr result4 \<and>
   parseSample sample4 [LF] (Some '','') (Some [CHR 0x22]) = [[''a'', ''b''], [''1'', ''2'']] \<and>
   labels result4 = Some [''a'', ''b''] \<and> records result4 = [[''1'', ''2'']] \<and>
   quoteInUse (quoteChar result4) = Some [CHR 0x22] \<and>
   plainNewline (newlineStr result4) (quoteChar result4) \<and>
   length (records result4) + 1 = fullyTerminatedRows sample4 [LF] (Some '','') (Some [CHR 0x22]) \<and>
   fullyTerminatedRows sample4 [LF] (Some '','') (Some [CHR 0x22]) = 2 \<and>
   sniff None ''abc'' options6 = Inr result6 \<and>
   quoteInUse (quoteChar result6) = None \<and>
   fullyTerminatedRows ''abc'' [LF] (Some '','') None = 0 \<and>
   length (records result6) + 0 = 1"
proof -
  have s: "sniff None sample1 noOptions =
     Inr \<lparr>warnings = [], newlineStr = [LF], delimiter = Some '','', quoteChar = None,
          res_hasHeader = True, res_types = [IntegerT, IntegerT, IntegerT],
          labels = Some [''a'', ''b'', ''c''],
          records = [[''1'', ''2'', ''3''], [''4'', ''5'', ''6'']]\<rparr>"
    by (rule sniff1) (simp add: allowed_def)
  have 1: "parseSample sample1 [LF] (Some '','') None = table1 \<and>
   Some [''a'', ''b'', ''c''] = Some (hd table1) \<and>
   [[''1'', ''2'', ''3''], [''4'', ''5'', ''6'']] = tl table1 \<and>
   truthy (opt_newlineStr noOptions) = None \<and> opt_quoteChar noOptions = Undefined \<and>
   length [[''1'', ''2'', ''3''], [''4'', ''5'', ''6'']] + 1 =
     fullyTerminatedRows sample1 [LF] (Some '','') None"
    using C5_labels_and_records [OF s] by (simp add: parse1 Let_def noOptions_def truthy_def) (simp add: table1_def)
  have 4: "parseSample sample4 [LF] (Some '','') (Some [CHR 0x22]) = [[''a'', ''b''], [''1'', ''2'']] \<and>
   labels result4 = Some [''a'', ''b''] \<and> records result4 = [[''1'', ''2'']] \<and>
   quoteInUse (quoteChar result4) = Some [CHR 0x22] \<and>
   plainNewline (newlineStr result4) (quoteChar result4) \<and>
   length (records result4) + 1 = fullyTerminatedRows sample4 [LF] (Some '','') (Some [CHR 0x22])"
    using C5_labels_and_records [OF sniff4]
    by (simp add: parse4 Let_def result4_def quoteInUse_def plainNewline_def)
  have 6: "quoteInUse (quoteChar result6) = None \<and>
   fullyTerminatedRows ''abc'' [LF] (Some '','') None = 0 \<and>
   length (records result6) + 0 = 1"
    using C5_labels_and_records [OF sniff6]
    by (simp add: parse6 Let_def result6_def quoteInUse_def terminated6)
  show ?thesis
    using s 1 4 6 sniff4 sniff6 terminated1 terminated4 by blast
qed

text \<open>
  C6. The specification has the frequency guesser break a tie between several candidates
  by the first known delimiter among comma, tab, semicolon, space, colon and bar, and the
  source says so at line 392. For \<open>sample2\<close> the candidates are the space and the comma,
  the first known delimiter among them is the comma, and the guesser returns the space:
  it always returns the first candidate in the order of the codes.
\<close>

theorem C6_first_candidate_returned:
  "findDelims (modesOf (map asciiTable (terminatedLines [LF] sample2)))
     (length (terminatedLines [LF] sample2)) None 0 = [CHR '' '', CHR '',''] \<and>
   find (\<lambda>k. k \<in> set [CHR '' '', CHR '','']) knownDelimiters = Some (CHR '','') \<and>
   guessDelimiter sample2 [LF] None = Some (CHR '' '') \<and>
   guessDelimiter sample nl ds =
     (case findDelims (modesOf (map asciiTable (terminatedLines nl sample)))
             (length (terminatedLines nl sample)) ds 0 of
        [] \<Rightarrow> None
      | c # cs \<Rightarrow> if terminatedLines nl sample = [] then None else Some c)"
proof -
  have "guessDelimiter sample nl ds =
     (case findDelims (modesOf (map asciiTable (terminatedLines nl sample)))
             (length (terminatedLines nl sample)) ds 0 of
        [] \<Rightarrow> None
      | c # cs \<Rightarrow> if terminatedLines nl sample = [] then None else Some c)"
    by (simp add: guessDelimiter_def Let_def split: list.splits)
  then show ?thesis
    using guessDelimiter2 by (simp add: lines2 findDelims2 knownDelimiters_def)
qed

text \<open>
  C8. With a set of allowed delimiters \<open>ds\<close> given to the constructor, a delimiter found
  by the pattern guesser or by the frequency guesser belongs to \<open>ds\<close>, and so does the
  delimiter of a result of \<open>sniff\<close> whenever the options supply no delimiter: it is
  \<^verbatim>\<open>null\<close> or one character of \<open>ds\<close>.
\<close>

theorem C8_allowed_delimiters:
  "(delim (guessQuoteAndDelimiter sample nl (Some ds)) = Some d \<longrightarrow> d \<in> set ds) \<and>
   (guessDelimiter sample nl (Some ds) = Some d \<longrightarrow> d \<in> set ds) \<and>
   (truthy (opt_delimiter options) = None \<and> sniff (Some ds) sample options = Inr r \<longrightarrow>
      delimiter r = None \<or> (\<exists>c \<in> set ds. delimiter r = Some [c]))"
proof (intro conjI impI)
  assume "delim (guessQuoteAndDelimiter sample nl (Some ds)) = Some d"
  then show "d \<in> set ds"
    using guessQuoteAndDelimiter_allowed [of sample nl "Some ds" d] by (simp add: allowed_def)
next
  assume "guessDelimiter sample nl (Some ds) = Some d"
  then show "d \<in> set ds"
    using guessDelimiter_allowed [of sample nl "Some ds" d] by (simp add: allowed_def)
next
  assume a: "truthy (opt_delimiter options) = None \<and> sniff (Some ds) sample options = Inr r"
  then obtain nl' where "r = sniffWith (Some ds) sample options nl'"
    using sniff_Inr by blast
  then show "delimiter r = None \<or> (\<exists>c \<in> set ds. delimiter r = Some [c])"
    using sniffWith_delimiter_allowed [of options "Some ds" sample nl'] a
    by (auto simp: allowed_def)
qed

theorem C8_allowed_delimiters_witness:
  "delim (guessQuoteAndDelimiter sample3 [LF] (Some '',;'')) = Some (CHR '','') \<and>
   guessDelimiter sample1 [LF] (Some '',;'') = Some (CHR '','') \<and>
   CHR '','' \<in> set '',;'' \<and>
   truthy (opt_delimiter noOptions) = None \<and>
   sniff (Some '',;'') sample1 noOptions =
     Inr \<lparr>warnings = [], newlineStr = [LF], delimiter = Some '','', quoteChar = None,
          res_hasHeader = True, res_types = [IntegerT, IntegerT, IntegerT],
          labels = Some [''a'', ''b'', ''c''],
          records = [[''1'', ''2'', ''3''], [''4'', ''5'', ''6'']]\<rparr>"
proof -
  have a: "allowed (Some '',;'') (CHR '','')" by (simp add: allowed_def)
  have g: "guessDelimiter sample1 [LF] (Some '',;'') = Some (CHR '','')"
    using a by (rule guessDelimiter1)
  have s: "sniff (Some '',;'') sample1 noOptions =
     Inr \<lparr>warnings = [], newlineStr = [LF], delimiter = Some '','', quoteChar = None,
          res_hasHeader = True, res_types = [IntegerT, IntegerT, IntegerT],
          labels = Some [''a'', ''b'', ''c''],
          records = [[''1'', ''2'', ''3''], [''4'', ''5'', ''6'']]\<rparr>"
    using a by (rule sniff1)
  have t: "truthy (opt_delimiter noOptions) = None"
    by (simp add: noOptions_def truthy_def)
  show ?thesis
    using C8_allowed_delimiters [of sample3 "[LF]" "'',;''" "CHR '',''" noOptions]
      C8_allowed_delimiters [of sample1 "[LF]" "'',;''" "CHR '',''" noOptions]
      g s t
    by (simp add: quoteAndDelim3)
qed

text \<open>
  C9, as the specification states it: when the options supply all four of the newline
  string, the delimiter, the quote character and \<^verbatim>\<open>hasHeader\<close>, \<^verbatim>\<open>null\<close> being allowed
  for the delimiter and the quote character, the result holds these four values unchanged.
  \<open>options9\<close> supplies \<^verbatim>\<open>null\<close> as delimiter, and the result for \<open>sample1\<close> has the
  delimiter \<^verbatim>\<open>","\<close>: line 649 takes a delimiter that is \<^verbatim>\<open>null\<close> or empty as not supplied
  and calls the frequency guesser.
\<close>

theorem C9_null_delimiter_counterexample:
  "opt_newlineStr options9 \<noteq> Undefined \<and> opt_delimiter options9 = Null \<and>
   opt_quoteChar options9 \<noteq> Undefined \<and> opt_hasHeader options9 \<noteq> Undefined \<and>
   sniff None sample1 options9 = Inr result9 \<and>
   delimiter result9 = Some '','' \<and>
   \<not> suppliedKept options9 result9"
  using sniff9 by (simp add: options9_def result9_def suppliedKept_def toOption_def)

text \<open>
  C9, amended. When the options supply a newline string that is not empty, a quote
  character (which may be \<^verbatim>\<open>null\<close>) and a boolean \<^verbatim>\<open>hasHeader\<close>, \<open>sniff\<close> returns a result
  that holds these three values unchanged, with no warning, and with the types, the labels
  and the records computed from the sample parsed with the values of the result. A
  delimiter that is supplied and not empty is returned unchanged as well, so that the
  result holds all four values as they were given; a delimiter that is \<^verbatim>\<open>null\<close>, empty or
  left out is replaced by what \<open>guessDelimiter\<close> returns for the sample, one character or
  \<^verbatim>\<open>null\<close>.
\<close>

theorem C9_supplied_options_kept:
  "opt_newlineStr options = Value nl \<Longrightarrow> nl \<noteq> [] \<Longrightarrow>
   opt_quoteChar options \<noteq> Undefined \<Longrightarrow> opt_hasHeader options = Value b \<Longrightarrow>
   sniff ds sample options =
     (let chosen = (case truthy (opt_delimiter options) of
                      Some d \<Rightarrow> Some d
                    | None \<Rightarrow> map_option (\<lambda>d. [d]) (guessDelimiter sample nl ds));
          parsed = parseSample sample nl chosen (toOption (opt_quoteChar options))
      in Inr \<lparr>warnings = [], newlineStr = nl, delimiter = chosen,
               quoteChar = toOption (opt_quoteChar options), res_hasHeader = b,
               res_types = (if b then tail (getTypes parsed) else all (getTypes parsed)),
               labels = (if b \<and> parsed \<noteq> [] then Some (hd parsed) else None),
               records = (if b \<and> parsed \<noteq> [] then tl parsed else parsed)\<rparr>) \<and>
   (\<forall>r. sniff ds sample options = Inr r \<longrightarrow>
      (truthy (opt_delimiter options) \<noteq> None \<longrightarrow> suppliedKept options r) \<and>
      (truthy (opt_delimiter options) = None \<longrightarrow>
         delimiter r = map_option (\<lambda>d. [d]) (guessDelimiter sample nl ds) \<and>
         delimiter r \<noteq> Some []))"
proof -
  assume a: "opt_newlineStr options = Value nl" "nl \<noteq> []"
    "opt_quoteChar options \<noteq> Undefined" "opt_hasHeader options = Value b"
  define chosen where "chosen = (case truthy (opt_delimiter options) of
                      Some d \<Rightarrow> Some d
                    | None \<Rightarrow> map_option (\<lambda>d. [d]) (guessDelimiter sample nl ds))"
  define parsed where "parsed = parseSample sample nl chosen (toOption (opt_quoteChar options))"
  define result where "result = \<lparr>warnings = [], newlineStr = nl, delimiter = chosen,
               quoteChar = toOption (opt_quoteChar options), res_hasHeader = b,
               res_types = (if b then tail (getTypes parsed) else all (getTypes parsed)),
               labels = (if b \<and> parsed \<noteq> [] then Some (hd parsed) else None),
               records = (if b \<and> parsed \<noteq> [] then tl parsed else parsed)\<rparr>"
  have n: "resolveNewline sample options = Some nl"
    using a(1,2) by (simp add: resolveNewline_def truthy_def)
  have w: "sniffWith ds sample options nl = result"
    unfolding result_def parsed_def chosen_def
    using sniffWith_quote_supplied [OF a(3,4), of ds sample nl] by (simp add: Let_def)
  have s: "sniff ds sample options = Inr result"
    using n a(2) w by (simp add: sniff_def)
  have kept: "suppliedKept options result" if t: "truthy (opt_delimiter options) \<noteq> None"
  proof -
    obtain d where "opt_delimiter options = Value d" "d \<noteq> []"
      using t by (auto simp: truthy_def split: jsval.splits if_splits)
    then show ?thesis
      using a by (simp add: suppliedKept_def result_def chosen_def truthy_def toOption_def)
  qed
  have guessed: "delimiter result = map_option (\<lambda>d. [d]) (guessDelimiter sample nl ds) \<and>
      delimiter result \<noteq> Some []"
    if "truthy (opt_delimiter options) = None"
    using that by (auto simp: result_def chosen_def)
  show ?thesis
    using s kept guessed
    unfolding Let_def chosen_def [symmetric] parsed_def [symmetric] result_def [symmetric]
    by simp
qed

theorem C9_supplied_options_kept_witness:
  "opt_newlineStr options5 = Value [LF] \<and> [LF] \<noteq> [] \<and>
   opt_quoteChar options5 \<noteq> Undefined \<and> opt_hasHeader options5 = Value True \<and>
   truthy (opt_delimiter options5) = Some '','' \<and>
   sniff None sample4 options5 = Inr result4 \<and> suppliedKept options5 result4 \<and>
   opt_newlineStr options9 = Value [LF] \<and>
   opt_quoteChar options9 \<noteq> Undefined \<and> opt_hasHeader options9 = Value False \<and>
   truthy (opt_delimiter options9) = None \<and>
   guessDelimiter sample1 [LF] None = Some (CHR '','') \<and>
   sniff None sample1 options9 = Inr result9 \<and> delimiter result9 = Some '',''"
proof -
  have o5: "opt_newlineStr options5 = Value [LF]" "[LF] \<noteq> []"
    "opt_quoteChar options5 \<noteq> Undefined" "opt_hasHeader options5 = Value True"
    by (simp_all add: options5_def)
  have o9: "opt_newlineStr options9 = Value [LF]" "[LF] \<noteq> []"
    "opt_quoteChar options9 \<noteq> Undefined" "opt_hasHeader options9 = Value False"
    by (simp_all add: options9_def)
  have t5: "truthy (opt_delimiter options5) = Some '',''"
    by (simp add: options5_def truthy_def)
  have t9: "truthy (opt_delimiter options9) = None"
    by (simp add: options9_def truthy_def)
  have g: "guessDelimiter sample1 [LF] None = Some (CHR '','')"
    by (rule guessDelimiter1) (simp add: allowed_def)
  have 5: "sniff None sample4 options5 = Inr result4 \<and> suppliedKept options5 result4"
    using C9_supplied_options_kept [OF o5, of None sample4] sniff4 by (simp add: t5)
  have 9: "sniff None sample1 options9 = Inr result9 \<and> delimiter result9 = Some '',''"
    using C9_supplied_options_kept [OF o9, of None sample1] sniff9 by (simp add: t9 g)
  show ?thesis
    using o5 o9 t5 t9 g 5 9 by blast
qed

end
